theory Spec2Isabelle
  imports Main
begin

section \<open>Exceptions\<close>

text \<open>
  The exceptions that \<^verbatim>\<open>utils.py\<close> and the library calls it makes can raise. A function that
  may raise returns \<open>exn + 'a\<close>, with \<open>Inl\<close> for the exception.
\<close>

datatype exn =
    ValueError string
  | NoSectionError string
  | NoOptionError string string
  | InterpolationDepthError string string
  | InterpolationSyntaxError string string
  | InterpolationMissingOptionError string string string
  | OSError nat
  | NameError string
  | IndexError
  | UnsupportedOperation
  | UserException string

section \<open>arxiv utils\<close>

subsection \<open>Python strings\<close>

text \<open>
  The identifiers are values of Python's \<^verbatim>\<open>str\<close>: sequences of Unicode code points. \<open>cp\<close>
  is the code point of an ASCII character and \<open>str\<close> the string of an ASCII literal.
\<close>

type_synonym codepoint = nat

type_synonym pystr = "codepoint list"

definition cp :: "char \<Rightarrow> codepoint" where
  "cp c = of_char c"

definition str :: "string \<Rightarrow> pystr" where
  "str s = map cp s"

subsection \<open>\<^verbatim>\<open>strip_version\<close>\<close>

text \<open>
  \<^verbatim>\<open>idstr.split('v')\<close>: Python's \<^verbatim>\<open>str.split\<close> with a one-character separator. The result
  always has at least one part; the last branch of the \<open>case\<close> is there for totality only.
\<close>

fun str_split :: "codepoint \<Rightarrow> pystr \<Rightarrow> pystr list" where
  "str_split sep [] = [[]]"
| "str_split sep (c # cs) =
     (if c = sep then [] # str_split sep cs
      else (case str_split sep cs of
              p # ps \<Rightarrow> (c # p) # ps
            | [] \<Rightarrow> [[c]]))"

text \<open>
  \<^verbatim>\<open>parts = idstr.split('v'); return parts[0]\<close>. Indexing an empty list raises
  \<^verbatim>\<open>IndexError\<close> in Python, so the model keeps that branch.
\<close>

definition strip_version :: "pystr \<Rightarrow> exn + pystr" where
  "strip_version idstr =
     (let parts = str_split (cp (CHR ''v'')) idstr
      in case parts of [] \<Rightarrow> Inl IndexError | p # _ \<Rightarrow> Inr p)"

subsection \<open>Regular expressions and \<^verbatim>\<open>re.match\<close>\<close>

text \<open>
  The fragment of Python's regular expressions that the pattern of \<^verbatim>\<open>isvalidid\<close> uses.
  \<open>Sat P\<close> is a character class, given by the code points it holds, \<open>Lit c\<close> a literal
  character; \<^verbatim>\<open>r+\<close> and \<^verbatim>\<open>(r)?\<close> are derived forms.
\<close>

datatype regex =
    Null
  | Eps
  | Sat "codepoint \<Rightarrow> bool"
  | Lit codepoint
  | Alt regex regex
  | Seq regex regex
  | Star regex

definition Plus_re :: "regex \<Rightarrow> regex" where
  "Plus_re r = Seq r (Star r)"

definition Opt_re :: "regex \<Rightarrow> regex" where
  "Opt_re r = Alt r Eps"

text \<open>
  \<^verbatim>\<open>\d\<close> in a \<^verbatim>\<open>str\<close> pattern without the \<^verbatim>\<open>ASCII\<close> flag: the decimal digits of Unicode
  (category \<^verbatim>\<open>Nd\<close>). Up to code point 127 these are \<^verbatim>\<open>0\<close> to \<^verbatim>\<open>9\<close>. Beyond, they depend on
  the Unicode version of the interpreter: the parameter \<open>nd\<close> is that table.
\<close>

definition isdigit :: "(codepoint \<Rightarrow> bool) \<Rightarrow> codepoint \<Rightarrow> bool" where
  "isdigit nd c = (cp (CHR ''0'') \<le> c \<and> c \<le> cp (CHR ''9'') \<or> 127 < c \<and> nd c)"

fun nullable :: "regex \<Rightarrow> bool" where
  "nullable Null = False"
| "nullable Eps = True"
| "nullable (Sat P) = False"
| "nullable (Lit c) = False"
| "nullable (Alt r s) = (nullable r \<or> nullable s)"
| "nullable (Seq r s) = (nullable r \<and> nullable s)"
| "nullable (Star r) = True"

fun deriv :: "codepoint \<Rightarrow> regex \<Rightarrow> regex" where
  "deriv a Null = Null"
| "deriv a Eps = Null"
| "deriv a (Sat P) = (if P a then Eps else Null)"
| "deriv a (Lit c) = (if a = c then Eps else Null)"
| "deriv a (Alt r s) = Alt (deriv a r) (deriv a s)"
| "deriv a (Seq r s) =
     (if nullable r then Alt (Seq (deriv a r) s) (deriv a s) else Seq (deriv a r) s)"
| "deriv a (Star r) = Seq (deriv a r) (Star r)"

text \<open>\<open>fullmatch r s\<close>: the whole of \<open>s\<close> is a word of \<open>r\<close>.\<close>

fun fullmatch :: "regex \<Rightarrow> pystr \<Rightarrow> bool" where
  "fullmatch r [] = nullable r"
| "fullmatch r (a # w) = fullmatch (deriv a r) w"

text \<open>
  \<^verbatim>\<open>re.match('^' + r + '$', s)\<close> without flags. \<^verbatim>\<open>re.match\<close> starts at position 0, where
  \<^verbatim>\<open>^\<close> holds; \<^verbatim>\<open>$\<close> holds at the end of the string and also just before a newline that is
  the last character of the string. So there is a match when \<open>r\<close> matches all of \<open>s\<close>, or
  all of \<open>s\<close> but one final newline.
\<close>

definition newline :: codepoint where
  "newline = 10"

definition re_match_anchored :: "regex \<Rightarrow> pystr \<Rightarrow> bool" where
  "re_match_anchored r s =
     (fullmatch r s \<or> (s \<noteq> [] \<and> last s = newline \<and> fullmatch r (butlast s)))"

subsection \<open>\<^verbatim>\<open>isvalidid\<close>\<close>

text \<open>The pattern \<^verbatim>\<open>\d+\.\d+(v\d+)?\<close> between the anchors.\<close>

definition arxiv_id_pattern :: "(codepoint \<Rightarrow> bool) \<Rightarrow> regex" where
  "arxiv_id_pattern nd =
     Seq (Plus_re (Sat (isdigit nd)))
       (Seq (Lit (cp (CHR ''.'')))
         (Seq (Plus_re (Sat (isdigit nd)))
           (Opt_re (Seq (Lit (cp (CHR ''v''))) (Plus_re (Sat (isdigit nd)))))))"

text \<open>
  \<^verbatim>\<open>return re.match('^\d+\.\d+(v\d+)?$', pid)\<close>: a match object (truthy) or \<^verbatim>\<open>None\<close>;
  the model returns the truth value.
\<close>

definition isvalidid :: "(codepoint \<Rightarrow> bool) \<Rightarrow> pystr \<Rightarrow> bool" where
  "isvalidid nd pid = re_match_anchored (arxiv_id_pattern nd) pid"

subsection \<open>The words of a regular expression\<close>

inductive_set star :: "pystr set \<Rightarrow> pystr set" for A :: "pystr set" where
  star_empty: "[] \<in> star A"
| star_step: "u \<in> A \<Longrightarrow> v \<in> star A \<Longrightarrow> u @ v \<in> star A"

fun lang :: "regex \<Rightarrow> pystr set" where
  "lang Null = {}"
| "lang Eps = {[]}"
| "lang (Sat P) = {[c] | c. P c}"
| "lang (Lit c) = {[c]}"
| "lang (Alt r s) = lang r \<union> lang s"
| "lang (Seq r s) = {u @ v | u v. u \<in> lang r \<and> v \<in> lang s}"
| "lang (Star r) = star (lang r)"

text \<open>\<open>digits nd w\<close>: one or more characters, all of them decimal digits.\<close>

definition digits :: "(codepoint \<Rightarrow> bool) \<Rightarrow> pystr \<Rightarrow> bool" where
  "digits nd w = (w \<noteq> [] \<and> list_all (isdigit nd) w)"

text \<open>The identifiers \<^verbatim>\<open>digits.digits\<close> and \<^verbatim>\<open>digits.digitsvdigits\<close>.\<close>

definition arxiv_id :: "(codepoint \<Rightarrow> bool) \<Rightarrow> pystr \<Rightarrow> bool" where
  "arxiv_id nd s =
     (\<exists>a b. digits nd a \<and> digits nd b \<and>
        (s = a @ str ''.'' @ b \<or> (\<exists>c. digits nd c \<and> s = a @ str ''.'' @ b @ str ''v'' @ c)))"

text \<open>
  Two tables of decimal digits beyond ASCII, for examples: none at all, and the
  Arabic-Indic digits \<^verbatim>\<open>U+0660\<close> to \<^verbatim>\<open>U+0669\<close>.
\<close>

definition ascii_only :: "codepoint \<Rightarrow> bool" where
  "ascii_only c = False"

definition arabic_indic :: "codepoint \<Rightarrow> bool" where
  "arabic_indic c = (0x660 \<le> c \<and> c \<le> 0x669)"

section \<open>The operating system\<close>

text \<open>
  The files the program sees. A path names a directory entry: \<open>resolve st p\<close> is the entry
  that the path \<open>p\<close> names, the same for every spelling of the path (repeated slashes,
  \<^verbatim>\<open>.\<close> components, links on the way, the working directory for a relative path). \<open>files\<close>
  gives the content of every entry that exists. The environment can make a system call on
  an entry fail (\<open>faults\<close>: a permission, an I/O error, a full disk); a fault is an error
  number other than \<^verbatim>\<open>ENOENT\<close> and \<^verbatim>\<open>EEXIST\<close>, which the model raises itself from \<open>files\<close>.
  \<open>temp_names\<close> are the candidate names that the random name sequence of \<^verbatim>\<open>tempfile\<close>
  yields, and \<open>tmp_max\<close> is \<^verbatim>\<open>tempfile.TMP_MAX\<close> (the platform's \<^verbatim>\<open>os.TMP_MAX\<close>).
\<close>

type_synonym path = string

type_synonym bytes = string

datatype syscall = SysCreate | SysOpen | SysWrite | SysRename | SysUnlink

datatype fault = EPERM | EIO | EACCES | EBUSY | ENOSPC | EROFS

fun errno_of :: "fault \<Rightarrow> nat" where
  "errno_of EPERM = 1"
| "errno_of EIO = 5"
| "errno_of EACCES = 13"
| "errno_of EBUSY = 16"
| "errno_of ENOSPC = 28"
| "errno_of EROFS = 30"

definition ENOENT :: nat where
  "ENOENT = 2"

definition EEXIST :: nat where
  "EEXIST = 17"

record os_state =
  files :: "path \<rightharpoonup> bytes"
  faults :: "syscall \<Rightarrow> path \<Rightarrow> fault option"
  resolve :: "path \<Rightarrow> path"
  temp_names :: "string list"
  tmp_max :: nat

definition file_at :: "os_state \<Rightarrow> path \<Rightarrow> bytes option" where
  "file_at st p = files st (resolve st p)"

definition fault_at :: "os_state \<Rightarrow> syscall \<Rightarrow> path \<Rightarrow> fault option" where
  "fault_at st call p = faults st call (resolve st p)"

definition put_file :: "os_state \<Rightarrow> path \<Rightarrow> bytes option \<Rightarrow> os_state" where
  "put_file st p content = st\<lparr>files := (files st)(resolve st p := content)\<rparr>"

text \<open>
  Every call that takes a path raises \<^verbatim>\<open>ValueError('embedded null byte')\<close>, before any
  system call, when the path holds a NUL character.
\<close>

definition has_nul :: "path \<Rightarrow> bool" where
  "has_nul p = (CHR 0x00 \<in> set p)"

definition nul_error :: exn where
  "nul_error = ValueError ''embedded null byte''"

text \<open>Reading a whole file, as \<^verbatim>\<open>open(filename)\<close> followed by reading it does.\<close>

definition os_read_file :: "os_state \<Rightarrow> path \<Rightarrow> exn + bytes" where
  "os_read_file st p =
     (if has_nul p then Inl nul_error
      else case file_at st p of
        None \<Rightarrow> Inl (OSError ENOENT)
      | Some content \<Rightarrow>
          (case fault_at st SysOpen p of
             Some f \<Rightarrow> Inl (OSError (errno_of f))
           | None \<Rightarrow> Inr content))"

text \<open>\<^verbatim>\<open>os.open(file, O_RDWR | O_CREAT | O_EXCL)\<close>, then \<^verbatim>\<open>os.close(fd)\<close>: an empty new file.\<close>

definition os_create_excl :: "os_state \<Rightarrow> path \<Rightarrow> exn + os_state" where
  "os_create_excl st p =
     (if has_nul p then Inl nul_error
      else case file_at st p of
        Some _ \<Rightarrow> Inl (OSError EEXIST)
      | None \<Rightarrow>
          (case fault_at st SysCreate p of
             Some f \<Rightarrow> Inl (OSError (errno_of f))
           | None \<Rightarrow> Inr (put_file st p (Some []))))"

text \<open>\<^verbatim>\<open>os.remove(name)\<close>.\<close>

definition os_remove :: "os_state \<Rightarrow> path \<Rightarrow> exn + os_state" where
  "os_remove st p =
     (if has_nul p then Inl nul_error
      else case file_at st p of
        None \<Rightarrow> Inl (OSError ENOENT)
      | Some _ \<Rightarrow>
          (case fault_at st SysUnlink p of
             Some f \<Rightarrow> Inl (OSError (errno_of f))
           | None \<Rightarrow> Inr (put_file st p None)))"

text \<open>
  \<^verbatim>\<open>os.rename(src, dst)\<close> on POSIX: \<open>dst\<close> is replaced when it exists, and renaming a file
  onto itself, under whatever spelling, does nothing.
\<close>

definition os_rename :: "os_state \<Rightarrow> path \<Rightarrow> path \<Rightarrow> exn + os_state" where
  "os_rename st src dst =
     (if has_nul src \<or> has_nul dst then Inl nul_error
      else case file_at st src of
        None \<Rightarrow> Inl (OSError ENOENT)
      | Some content \<Rightarrow>
          (case fault_at st SysRename src of
             Some f \<Rightarrow> Inl (OSError (errno_of f))
           | None \<Rightarrow>
               if resolve st src = resolve st dst then Inr st
               else Inr (put_file (put_file st dst (Some content)) src None)))"

text \<open>\<^verbatim>\<open>os.path.dirname\<close> and \<^verbatim>\<open>os.path.join\<close> of \<^verbatim>\<open>posixpath\<close>.\<close>

definition dirname :: "path \<Rightarrow> path" where
  "dirname p =
     (let head = rev (dropWhile (\<lambda>c. c \<noteq> CHR ''/'') (rev p))
      in if head \<noteq> [] \<and> \<not> list_all (\<lambda>c. c = CHR ''/'') head
         then rev (dropWhile (\<lambda>c. c = CHR ''/'') (rev head))
         else head)"

definition path_join :: "path \<Rightarrow> string \<Rightarrow> path" where
  "path_join dir name =
     (if name \<noteq> [] \<and> hd name = CHR ''/'' then name
      else if dir = [] \<or> last dir = CHR ''/'' then dir @ name
      else dir @ ''/'' @ name)"

text \<open>
  \<^verbatim>\<open>tempfile.mkstemp(dir=dir)\<close>: the first candidate \<^verbatim>\<open>dir/tmp<name>\<close> that does not exist
  is created; a candidate that exists is skipped, any other error is raised; when none of
  the \<^verbatim>\<open>TMP_MAX\<close> candidates is left, \<^verbatim>\<open>FileExistsError\<close> is raised. The library makes \<open>dir\<close>
  absolute first (\<^verbatim>\<open>os.path.abspath\<close>), which is another spelling of the same entries and
  is left out.
\<close>

fun mkstemp_inner :: "os_state \<Rightarrow> path \<Rightarrow> string list \<Rightarrow> exn + (path \<times> os_state)" where
  "mkstemp_inner st dir [] = Inl (OSError EEXIST)"
| "mkstemp_inner st dir (name # names) =
     (let file = path_join dir (''tmp'' @ name)
      in case os_create_excl st file of
           Inr st' \<Rightarrow> Inr (file, st')
         | Inl (OSError errno) \<Rightarrow>
             if errno = EEXIST then mkstemp_inner st dir names else Inl (OSError errno)
         | Inl e \<Rightarrow> Inl e)"

definition mkstemp :: "os_state \<Rightarrow> path \<Rightarrow> exn + (path \<times> os_state)" where
  "mkstemp st dir = mkstemp_inner st dir (take (tmp_max st) (temp_names st))"

text \<open>
  For the example machines: the entry of a path is its spelling with repeated slashes
  collapsed (a machine without links, where every path is written from the same
  directory).
\<close>

fun squeeze :: "path \<Rightarrow> path" where
  "squeeze (a # b # r) =
     (if a = CHR ''/'' \<and> b = CHR ''/'' then squeeze (b # r) else a # squeeze (b # r))"
| "squeeze p = p"

section \<open>Configuration\<close>

subsection \<open>\<^verbatim>\<open>configparser.ConfigParser\<close>\<close>

text \<open>
  A parser after \<^verbatim>\<open>read\<close>: the options of the \<^verbatim>\<open>[DEFAULT]\<close> section and those of every
  other section, each a dictionary from option name to the raw value of the file.
\<close>

record config_parser =
  defaults :: "string \<rightharpoonup> string"
  sections :: "string \<rightharpoonup> (string \<rightharpoonup> string)"

definition empty_parser :: config_parser where
  "empty_parser = \<lparr>defaults = Map.empty, sections = Map.empty\<rparr>"

text \<open>
  \<^verbatim>\<open>parser.read(filename)\<close>: a file that cannot be opened is silently ignored
  (\<^verbatim>\<open>except OSError: continue\<close>) and the parser stays empty. The grammar of INI files,
  \<^verbatim>\<open>RawConfigParser._read\<close>, is the parameter \<open>ini\<close>: it parses the content of a file or raises.
\<close>

definition parser_read ::
  "(bytes \<Rightarrow> exn + config_parser) \<Rightarrow> os_state \<Rightarrow> path \<Rightarrow> exn + config_parser" where
  "parser_read ini st filename =
     (case os_read_file st filename of
        Inl (OSError errno) \<Rightarrow> Inr empty_parser
      | Inl e \<Rightarrow> Inl e
      | Inr content \<Rightarrow> ini content)"

text \<open>\<^verbatim>\<open>has_section\<close>: the \<^verbatim>\<open>DEFAULT\<close> section is not acknowledged.\<close>

definition has_section :: "config_parser \<Rightarrow> string \<Rightarrow> bool" where
  "has_section p section = (sections p section \<noteq> None)"

text \<open>\<^verbatim>\<open>optionxform\<close> is \<^verbatim>\<open>str.lower\<close>; on 8-bit characters the model lowers the ASCII letters.\<close>

definition lower_char :: "char \<Rightarrow> char" where
  "lower_char c =
     (case map_of (zip ''ABCDEFGHIJKLMNOPQRSTUVWXYZ'' ''abcdefghijklmnopqrstuvwxyz'') c of
        Some l \<Rightarrow> l
      | None \<Rightarrow> c)"

definition optionxform :: "string \<Rightarrow> string" where
  "optionxform optionstr = map lower_char optionstr"

definition default_section :: string where
  "default_section = ''DEFAULT''"

text \<open>
  \<^verbatim>\<open>_unify_values(section, vars=None)\<close>: the chain of lookups, the section first, then the
  defaults.
\<close>

definition unify_values :: "config_parser \<Rightarrow> string \<Rightarrow> exn + (string \<rightharpoonup> string)" where
  "unify_values p section =
     (case sections p section of
        Some sectiondict \<Rightarrow> Inr (defaults p ++ sectiondict)
      | None \<Rightarrow>
          if section \<noteq> default_section then Inl (NoSectionError section)
          else Inr (defaults p))"

text \<open>\<^verbatim>\<open>rest.find("%")\<close>: the index of the first occurrence, \<open>None\<close> for Python's \<^verbatim>\<open>-1\<close>.\<close>

fun find_char :: "char \<Rightarrow> string \<Rightarrow> nat option" where
  "find_char c [] = None"
| "find_char c (x # xs) = (if x = c then Some 0 else map_option Suc (find_char c xs))"

text \<open>
  \<^verbatim>\<open>_KEYCRE.match(rest)\<close> for \<^verbatim>\<open>_KEYCRE = re.compile(r"%\(([^)]+)\)s")\<close>: the name between the
  parentheses and what is left of \<open>rest\<close> after the match.
\<close>

definition keycre_match :: "string \<Rightarrow> (string \<times> string) option" where
  "keycre_match rest =
     (case rest of
        c1 # c2 # r \<Rightarrow>
          if c1 = CHR ''%'' \<and> c2 = CHR ''(''
          then (let name = takeWhile (\<lambda>c. c \<noteq> CHR '')'') r;
                    after = dropWhile (\<lambda>c. c \<noteq> CHR '')'') r
                in if name \<noteq> [] \<and> take 2 after = '')s'' then Some (name, drop 2 after)
                   else None)
          else None
      | _ \<Rightarrow> None)"

definition MAX_INTERPOLATION_DEPTH :: nat where
  "MAX_INTERPOLATION_DEPTH = 10"

lemma keycre_match_shorter:
  assumes "keycre_match rest = Some (name, rest')"
  shows "length rest' < length rest"
proof -
  from assms obtain c1 c2 r where rest: "rest = c1 # c2 # r"
    and rest': "rest' = drop 2 (dropWhile (\<lambda>c. c \<noteq> CHR '')'') r)"
    unfolding keycre_match_def
    by (auto split: list.splits if_splits simp: Let_def)
  have "length (dropWhile (\<lambda>c. c \<noteq> CHR '')'') r) \<le> length r"
    by (rule length_dropWhile_le)
  with rest rest' show ?thesis by simp
qed

lemma keycre_match_rest_shorter:
  assumes "keycre_match (if 0 < p then drop p rest else rest) = Some (name, rest')"
  shows "length rest' < length rest"
proof -
  have "length (if 0 < p then drop p rest else rest) \<le> length rest" by simp
  with keycre_match_shorter [OF assms] show ?thesis by (rule less_le_trans)
qed

text \<open>
  \<^verbatim>\<open>BasicInterpolation._interpolate_some(parser, option, accum, rest, section, map, depth)\<close>.
  \<open>interpolate_some\<close> is the entry of the method with its depth check, \<open>interpolate_loop\<close> its
  \<^verbatim>\<open>while rest:\<close> loop. The list \<^verbatim>\<open>accum\<close> is returned joined. The raw value that the
  exceptions carry for their message is left out.
\<close>

function interpolate_some ::
    "(string \<rightharpoonup> string) \<Rightarrow> string \<Rightarrow> string \<Rightarrow> nat \<Rightarrow> string \<Rightarrow> string \<Rightarrow> exn + string"
  and interpolate_loop ::
    "(string \<rightharpoonup> string) \<Rightarrow> string \<Rightarrow> string \<Rightarrow> nat \<Rightarrow> string \<Rightarrow> string \<Rightarrow> exn + string"
where
  "interpolate_some m option section depth rest accum =
     (if depth > MAX_INTERPOLATION_DEPTH then Inl (InterpolationDepthError option section)
      else interpolate_loop m option section depth rest accum)"
| "interpolate_loop m option section depth rest accum =
     (if rest = [] then Inr accum
      else case find_char (CHR ''%'') rest of
        None \<Rightarrow> Inr (accum @ rest)
      | Some p \<Rightarrow>
          (let accum1 = (if p > 0 then accum @ take p rest else accum);
               rest1 = (if p > 0 then drop p rest else rest);
               c = take 1 (drop 1 rest1)
           in if c = ''%'' then
                interpolate_loop m option section depth (drop 2 rest1) (accum1 @ ''%'')
              else if c = ''('' then
                (case keycre_match rest1 of
                   None \<Rightarrow> Inl (InterpolationSyntaxError option section)
                 | Some (name, rest2) \<Rightarrow>
                     (let var = optionxform name
                      in case m var of
                           None \<Rightarrow> Inl (InterpolationMissingOptionError option section var)
                         | Some v \<Rightarrow>
                             if CHR ''%'' \<in> set v then
                               (case interpolate_some m option section (depth + 1) v accum1 of
                                  Inl e \<Rightarrow> Inl e
                                | Inr accum2 \<Rightarrow>
                                    interpolate_loop m option section depth rest2 accum2)
                             else interpolate_loop m option section depth rest2 (accum1 @ v)))
              else Inl (InterpolationSyntaxError option section)))"
  by pat_completeness auto
termination
  apply (relation "measures
     [\<lambda>x. case x of
             Inl (m, option, section, depth, rest, accum) \<Rightarrow>
               2 * (MAX_INTERPOLATION_DEPTH + 2 - depth)
           | Inr (m, option, section, depth, rest, accum) \<Rightarrow>
               2 * (MAX_INTERPOLATION_DEPTH + 1 - depth) + 1,
      \<lambda>x. case x of
             Inl (m, option, section, depth, rest, accum) \<Rightarrow> length rest
           | Inr (m, option, section, depth, rest, accum) \<Rightarrow> length rest]")
  apply (auto dest: keycre_match_rest_shorter)
  done

declare interpolate_some.simps [simp del] interpolate_loop.simps [simp del]

text \<open>\<^verbatim>\<open>before_get\<close>: \<^verbatim>\<open>L = []; self._interpolate_some(..., L, value, section, defaults, 1)\<close>.\<close>

definition before_get ::
  "string \<Rightarrow> string \<Rightarrow> string \<Rightarrow> (string \<rightharpoonup> string) \<Rightarrow> exn + string" where
  "before_get section option val d = interpolate_some d option section 1 val []"

text \<open>
  \<^verbatim>\<open>parser.get(section, option)\<close> with the defaults \<^verbatim>\<open>raw=False\<close>, \<^verbatim>\<open>vars=None\<close> and no
  fallback.
\<close>

definition parser_get :: "config_parser \<Rightarrow> string \<Rightarrow> string \<Rightarrow> exn + string" where
  "parser_get p section option =
     (case unify_values p section of
        Inl e \<Rightarrow> Inl e
      | Inr d \<Rightarrow>
          (let option' = optionxform option
           in case d option' of
                None \<Rightarrow> Inl (NoOptionError option' section)
              | Some val \<Rightarrow> before_get section option' val d))"

subsection \<open>\<^verbatim>\<open>ConfigFromFile\<close>\<close>

text \<open>
  The object under construction: the two attributes that \<^verbatim>\<open>__init__\<close> sets itself, and the
  attributes that \<^verbatim>\<open>setattr\<close> adds, by name.
\<close>

record config =
  config_file :: string
  parser :: config_parser
  attrs :: "string \<rightharpoonup> string"

definition check_config :: "config \<Rightarrow> exn + unit" where
  "check_config self =
     (if \<not> has_section (parser self) ''arxiv-sanity''
      then Inl (ValueError (''Config file '' @ config_file self @
                            '' doesn't have section [arxiv-sanity]''))
      else Inr ())"

definition vars_list :: "string list" where
  "vars_list =
     [''data_root'', ''db_path'', ''pdf_dir'', ''txt_dir'', ''thumbs_dir'', ''tfidf_path'',
      ''meta_path'', ''sim_path'', ''user_sim_path'', ''db_serve_path'', ''database_path'',
      ''serve_cache_path'', ''beg_for_hosting_money'', ''banned_path'', ''tmp_dir'']"

text \<open>
  \<^verbatim>\<open>for var in vars_list: val = parser.get('arxiv-sanity', var); setattr(self, var, val)\<close>.
\<close>

fun populate_loop :: "config \<Rightarrow> string list \<Rightarrow> exn + config" where
  "populate_loop self [] = Inr self"
| "populate_loop self (var # vars) =
     (case parser_get (parser self) ''arxiv-sanity'' var of
        Inl e \<Rightarrow> Inl e
      | Inr val \<Rightarrow> populate_loop (self\<lparr>attrs := (attrs self)(var \<mapsto> val)\<rparr>) vars)"

definition populate_vars :: "config \<Rightarrow> exn + config" where
  "populate_vars self = populate_loop self vars_list"

text \<open>\<^verbatim>\<open>ConfigFromFile.__init__(self, config_file)\<close>.\<close>

definition ConfigFromFile ::
  "(bytes \<Rightarrow> exn + config_parser) \<Rightarrow> os_state \<Rightarrow> path \<Rightarrow> exn + config" where
  "ConfigFromFile ini st cfg_file =
     (case parser_read ini st cfg_file of
        Inl e \<Rightarrow> Inl e
      | Inr p \<Rightarrow>
          (let self = \<lparr>config_file = cfg_file, parser = p, attrs = Map.empty\<rparr>
           in case check_config self of
                Inl e \<Rightarrow> Inl e
              | Inr _ \<Rightarrow> populate_vars self))"

subsection \<open>Reading an attribute of the loaded configuration\<close>

text \<open>
  \<^verbatim>\<open>ConfigFromFile(config_file).<name>\<close>: the exception of the construction, or the
  attribute (\<open>None\<close> when the object has no such attribute).
\<close>

definition loaded_attr :: "exn + config \<Rightarrow> string \<Rightarrow> exn + string option" where
  "loaded_attr r name = (case r of Inl e \<Rightarrow> Inl e | Inr self \<Rightarrow> Inr (attrs self name))"

subsection \<open>Example configuration files\<close>

text \<open>A machine with the file \<^verbatim>\<open>arxiv-sanity.cfg\<close> and no faults.\<close>

definition cfg_os :: os_state where
  "cfg_os = \<lparr>files = [''arxiv-sanity.cfg'' \<mapsto> ''[arxiv-sanity] ...''],
              faults = (\<lambda>call p. None), resolve = squeeze, temp_names = [],
              tmp_max = 238328\<rparr>"

text \<open>A section that gives every required key \<^verbatim>\<open>k\<close> the value \<^verbatim>\<open>/srv/k\<close>.\<close>

definition plain_section :: "string \<rightharpoonup> string" where
  "plain_section = map_of (map (\<lambda>k. (k, ''/srv/'' @ k)) vars_list)"

definition plain_parser :: config_parser where
  "plain_parser = \<lparr>defaults = Map.empty, sections = [''arxiv-sanity'' \<mapsto> plain_section]\<rparr>"

text \<open>The same with the line \<^verbatim>\<open>beg_for_hosting_money = 100%%\<close>.\<close>

definition percent_section :: "string \<rightharpoonup> string" where
  "percent_section = plain_section(''beg_for_hosting_money'' \<mapsto> ''100%%'')"

definition percent_parser :: config_parser where
  "percent_parser = \<lparr>defaults = Map.empty, sections = [''arxiv-sanity'' \<mapsto> percent_section]\<rparr>"

text \<open>
  A file whose \<^verbatim>\<open>[arxiv-sanity]\<close> section has every required key but \<^verbatim>\<open>data_root\<close>, with
  or without a \<^verbatim>\<open>[DEFAULT]\<close> section that has the line \<^verbatim>\<open>data_root = /srv\<close>.
\<close>

definition short_section :: "string \<rightharpoonup> string" where
  "short_section = map_of (map (\<lambda>k. (k, ''/srv/'' @ k)) (tl vars_list))"

definition short_parser :: config_parser where
  "short_parser = \<lparr>defaults = Map.empty, sections = [''arxiv-sanity'' \<mapsto> short_section]\<rparr>"

definition default_parser :: config_parser where
  "default_parser =
     \<lparr>defaults = [''data_root'' \<mapsto> ''/srv''], sections = [''arxiv-sanity'' \<mapsto> short_section]\<rparr>"


text \<open>A file with another section only.\<close>

definition other_parser :: config_parser where
  "other_parser = \<lparr>defaults = Map.empty, sections = [''other'' \<mapsto> Map.empty]\<rparr>"

section \<open>Atomic writes\<close>

subsection \<open>File objects\<close>

text \<open>
  The object that \<^verbatim>\<open>open(path, mode)\<close> returns: data written to it is buffered and reaches
  the file when the buffer is flushed, at the latest when the object is closed.
\<close>

record file_handle =
  h_path :: path
  h_writable :: bool
  h_buffer :: bytes

text \<open>
  The check of the mode string in \<^verbatim>\<open>io.open\<close>: known characters, none twice, not both text
  and binary, exactly one of create, read, write and append.
\<close>

definition valid_mode :: "string \<Rightarrow> bool" where
  "valid_mode mode =
     (set mode \<subseteq> set ''axrwb+t'' \<and> distinct mode \<and>
      \<not> (CHR ''t'' \<in> set mode \<and> CHR ''b'' \<in> set mode) \<and>
      length (filter (\<lambda>c. c \<in> set ''xrwa'') mode) = 1)"

text \<open>
  What the file holds once it is open, from the mode and from what it held before
  (\<open>None\<close>: no such file): \<^verbatim>\<open>x\<close> creates and fails on a file that exists, \<^verbatim>\<open>w\<close> creates or
  truncates, \<^verbatim>\<open>a\<close> creates or keeps, \<^verbatim>\<open>r\<close> fails on a file that does not exist.
\<close>

definition open_content :: "string \<Rightarrow> bytes option \<Rightarrow> exn + bytes" where
  "open_content mode old =
     (if CHR ''x'' \<in> set mode then
        (case old of Some _ \<Rightarrow> Inl (OSError EEXIST) | None \<Rightarrow> Inr [])
      else if CHR ''w'' \<in> set mode then Inr []
      else if CHR ''a'' \<in> set mode then Inr (case old of None \<Rightarrow> [] | Some c \<Rightarrow> c)
      else (case old of None \<Rightarrow> Inl (OSError ENOENT) | Some c \<Rightarrow> Inr c))"

text \<open>
  \<^verbatim>\<open>open(path, mode)\<close>. The messages of the \<^verbatim>\<open>ValueError\<close>s of an invalid mode are not
  told apart. Writes are modelled as appending, which is what every writable mode does on
  the empty file that \<^verbatim>\<open>open_atomic\<close> opens.
\<close>

definition open_file :: "os_state \<Rightarrow> path \<Rightarrow> string \<Rightarrow> exn + (file_handle \<times> os_state)" where
  "open_file st p mode =
     (if \<not> valid_mode mode then Inl (ValueError ''invalid mode'')
      else if has_nul p then Inl nul_error
      else case open_content mode (file_at st p) of
        Inl e \<Rightarrow> Inl e
      | Inr content \<Rightarrow>
          (case fault_at st SysOpen p of
             Some f \<Rightarrow> Inl (OSError (errno_of f))
           | None \<Rightarrow>
               Inr (\<lparr>h_path = p,
                     h_writable = (CHR ''r'' \<notin> set mode \<or> CHR ''+'' \<in> set mode),
                     h_buffer = []\<rparr>,
                    put_file st p (Some content))))"

text \<open>\<^verbatim>\<open>f.write(data)\<close>.\<close>

definition file_write :: "file_handle \<Rightarrow> bytes \<Rightarrow> exn + file_handle" where
  "file_write f data =
     (if h_writable f then Inr (f\<lparr>h_buffer := h_buffer f @ data\<rparr>)
      else Inl UnsupportedOperation)"

text \<open>
  \<^verbatim>\<open>f.flush()\<close>: the buffered data is appended to the file. Data written to a file that
  has been removed meanwhile is lost with it.
\<close>

definition file_flush :: "os_state \<Rightarrow> file_handle \<Rightarrow> exn + (file_handle \<times> os_state)" where
  "file_flush st f =
     (if h_buffer f = [] then Inr (f, st)
      else case fault_at st SysWrite (h_path f) of
        Some flt \<Rightarrow> Inl (OSError (errno_of flt))
      | None \<Rightarrow>
          Inr (f\<lparr>h_buffer := []\<rparr>,
               case file_at st (h_path f) of
                 None \<Rightarrow> st
               | Some content \<Rightarrow> put_file st (h_path f) (Some (content @ h_buffer f))))"

text \<open>\<^verbatim>\<open>f.close()\<close>: flushes, and raises when the flush fails.\<close>

definition file_close :: "os_state \<Rightarrow> file_handle \<Rightarrow> exn + os_state" where
  "file_close st f = (case file_flush st f of Inl e \<Rightarrow> Inl e | Inr (f', st') \<Rightarrow> Inr st')"

subsection \<open>The caller's block\<close>

text \<open>
  The block that the caller runs under \<^verbatim>\<open>with open_atomic(...) as f:\<close>, as far as it uses
  the handle: writes and flushes in sequence, until the block ends or raises. The result is
  the exception raised, if any, the handle and the state.
\<close>

datatype body_step = Write bytes | Flush | Raise exn

fun run_body ::
  "os_state \<Rightarrow> file_handle \<Rightarrow> body_step list \<Rightarrow> exn option \<times> file_handle \<times> os_state" where
  "run_body st f [] = (None, f, st)"
| "run_body st f (Write data # steps) =
     (case file_write f data of
        Inl e \<Rightarrow> (Some e, f, st)
      | Inr f' \<Rightarrow> run_body st f' steps)"
| "run_body st f (Flush # steps) =
     (case file_flush st f of
        Inl e \<Rightarrow> (Some e, f, st)
      | Inr (f', st') \<Rightarrow> run_body st' f' steps)"
| "run_body st f (Raise e # steps) = (Some e, f, st)"

subsection \<open>\<^verbatim>\<open>_tempfile\<close>\<close>

text \<open>
  Entering \<^verbatim>\<open>_tempfile(dir=...)\<close> is \<open>mkstemp\<close>. Leaving it runs the \<^verbatim>\<open>finally\<close> block, with
  the exception that is propagating (\<open>pending\<close>, \<open>None\<close> on normal completion):
  \<^verbatim>\<open>try: os.remove(name)  except OSError as e: if e.errno == 2: pass  else: raise e\<close>.
  An exception raised in the block replaces the pending one; an exception that is not an
  \<^verbatim>\<open>OSError\<close> is not caught.
\<close>

definition tempfile_cleanup :: "os_state \<Rightarrow> path \<Rightarrow> exn option \<Rightarrow> exn option \<times> os_state" where
  "tempfile_cleanup st name pending =
     (case os_remove st name of
        Inr st' \<Rightarrow> (pending, st')
      | Inl (OSError errno) \<Rightarrow>
          if errno = 2 then (pending, st) else (Some (OSError errno), st)
      | Inl e \<Rightarrow> (Some e, st))"

subsection \<open>\<^verbatim>\<open>open_atomic\<close>\<close>

text \<open>
  The statements after \<^verbatim>\<open>yield f\<close>, run when the caller's block completes normally:
  \<^verbatim>\<open>if fsync: f.flush(); os.fsync(file.fileno())\<close>. The name \<^verbatim>\<open>file\<close> is bound nowhere in
  the module and is no builtin of Python 3, so evaluating the argument of \<^verbatim>\<open>os.fsync\<close>
  raises \<^verbatim>\<open>NameError\<close> and \<^verbatim>\<open>os.fsync\<close> is never called.
\<close>

definition after_yield ::
  "os_state \<Rightarrow> file_handle \<Rightarrow> bool \<Rightarrow> exn option \<times> file_handle \<times> os_state" where
  "after_yield st f fsync =
     (if fsync then
        (case file_flush st f of
           Inl e \<Rightarrow> (Some e, f, st)
         | Inr (f', st') \<Rightarrow> (Some (NameError ''file''), f', st'))
      else (None, f, st))"

text \<open>
  \<^verbatim>\<open>with open(tmppath, mode) as f: yield f; ...\<close>: the file is closed however the block is
  left, and an exception of \<^verbatim>\<open>close\<close> replaces the pending one.
\<close>

definition with_open ::
  "os_state \<Rightarrow> path \<Rightarrow> string \<Rightarrow> bool \<Rightarrow> body_step list \<Rightarrow> exn option \<times> os_state" where
  "with_open st tmppath mode fsync body =
     (case open_file st tmppath mode of
        Inl e \<Rightarrow> (Some e, st)
      | Inr (f, st1) \<Rightarrow>
          (let (raised, f1, st2) = run_body st1 f body;
               (pending, f2, st3) =
                 (case raised of
                    Some e \<Rightarrow> (Some e, f1, st2)
                  | None \<Rightarrow> after_yield st2 f1 fsync)
           in case file_close st3 f2 of
                Inl e \<Rightarrow> (Some e, st3)
              | Inr st4 \<Rightarrow> (pending, st4)))"

text \<open>
  The block under \<^verbatim>\<open>with _tempfile(...) as tmppath:\<close>: the inner \<^verbatim>\<open>with\<close>, then
  \<^verbatim>\<open>os.rename(tmppath, filepath)\<close>, which runs only when the inner \<^verbatim>\<open>with\<close> completed
  normally.
\<close>

definition atomic_block ::
  "os_state \<Rightarrow> path \<Rightarrow> path \<Rightarrow> string \<Rightarrow> bool \<Rightarrow> body_step list \<Rightarrow> exn option \<times> os_state"
  where
  "atomic_block st tmppath filepath mode fsync body =
     (let (pending, st2) = with_open st tmppath mode fsync body
      in case pending of
           Some e \<Rightarrow> (Some e, st2)
         | None \<Rightarrow>
             (case os_rename st2 tmppath filepath of
                Inl e \<Rightarrow> (Some e, st2)
              | Inr st3 \<Rightarrow> (None, st3)))"

text \<open>
  \<^verbatim>\<open>open_atomic(filepath, mode, fsync=fsync)\<close> around the caller's block: the exception that
  reaches the caller (\<open>None\<close>: the \<^verbatim>\<open>with\<close> statement completes normally) and the state.
  When \<^verbatim>\<open>mkstemp\<close> raises, nothing else runs; otherwise the block runs and the cleanup of
  \<^verbatim>\<open>_tempfile\<close> follows, however the block ended.
\<close>

definition open_atomic ::
  "os_state \<Rightarrow> path \<Rightarrow> string \<Rightarrow> bool \<Rightarrow> body_step list \<Rightarrow> exn option \<times> os_state" where
  "open_atomic st filepath mode fsync body =
     (case mkstemp st (dirname filepath) of
        Inl e \<Rightarrow> (Some e, st)
      | Inr (tmppath, st1) \<Rightarrow>
          (let (pending, st3) = atomic_block st1 tmppath filepath mode fsync body
           in tempfile_cleanup st3 tmppath pending))"

text \<open>
  \<^verbatim>\<open>safe_pickle_dump(obj, fname)\<close>; what \<^verbatim>\<open>pickle.dump(obj, f, -1)\<close> does with the handle is
  the parameter \<open>pickle_dump\<close>.
\<close>

definition safe_pickle_dump ::
  "('a \<Rightarrow> body_step list) \<Rightarrow> os_state \<Rightarrow> 'a \<Rightarrow> path \<Rightarrow> exn option \<times> os_state" where
  "safe_pickle_dump pickle_dump st obj fname = open_atomic st fname ''wb'' False (pickle_dump obj)"

subsection \<open>Example machines\<close>

text \<open>
  A machine with the file \<^verbatim>\<open>data/out.p\<close>, no faults, and \<^verbatim>\<open>abcdefgh\<close> as the next temporary
  name; and the same machine where removing \<^verbatim>\<open>data/tmpabcdefgh\<close> is not permitted.
\<close>

definition atomic_os :: os_state where
  "atomic_os = \<lparr>files = [''data/out.p'' \<mapsto> ''old''], faults = (\<lambda>call p. None),
                 resolve = squeeze, temp_names = [''abcdefgh''], tmp_max = 238328\<rparr>"

definition locked_os :: os_state where
  "locked_os =
     atomic_os\<lparr>faults := (\<lambda>call p. if call = SysUnlink \<and> p = ''data/tmpabcdefgh''
                                     then Some EACCES else None)\<rparr>"

subsection \<open>States that differ at one entry only\<close>

text \<open>
  \<open>same_except p st st'\<close>: from \<open>st\<close> to \<open>st'\<close> nothing changed but, possibly, the file that
  the path \<open>p\<close> names.
\<close>

definition same_except :: "path \<Rightarrow> os_state \<Rightarrow> os_state \<Rightarrow> bool" where
  "same_except p st st' =
     (faults st' = faults st \<and> resolve st' = resolve st \<and> temp_names st' = temp_names st \<and>
      tmp_max st' = tmp_max st \<and>
      (\<forall>q. q \<noteq> resolve st p \<longrightarrow> files st' q = files st q))"

text \<open>
  \<open>written p st st'\<close>: moreover the file that \<open>p\<close> names exists afterwards exactly when it
  existed before; at most its content changed.
\<close>

definition written :: "path \<Rightarrow> os_state \<Rightarrow> os_state \<Rightarrow> bool" where
  "written p st st' =
     (same_except p st st' \<and> (file_at st' p = None \<longleftrightarrow> file_at st p = None))"

section \<open>Properties of the arxiv utils\<close>

subsection \<open>\<^verbatim>\<open>strip_version\<close>\<close>

lemma cp_values [simp]:
  "cp (CHR ''v'') = 118" "cp (CHR ''.'') = 46" "cp (CHR ''0'') = 48" "cp (CHR ''9'') = 57"
  by (simp_all add: cp_def)

lemma str_split_takeWhile:
  "\<exists>ps. str_split sep s = takeWhile (\<lambda>c. c \<noteq> sep) s # ps"
  by (induction s) auto

lemma strip_version_takeWhile:
  "strip_version s = Inr (takeWhile (\<lambda>c. c \<noteq> 118) s)"
proof -
  obtain ps where "str_split 118 s = takeWhile (\<lambda>c. c \<noteq> 118) s # ps"
    using str_split_takeWhile by blast
  then show ?thesis by (simp add: strip_version_def)
qed

subsection \<open>The matcher decides the words of a regular expression\<close>

lemma nullable_lang: "nullable r \<longleftrightarrow> [] \<in> lang r"
  by (induction r) (auto intro: star.star_empty)

lemma star_cons_iff:
  "a # w \<in> star A \<longleftrightarrow> (\<exists>u v. w = u @ v \<and> a # u \<in> A \<and> v \<in> star A)"
proof
  assume "a # w \<in> star A"
  then show "\<exists>u v. w = u @ v \<and> a # u \<in> A \<and> v \<in> star A"
  proof (induction "a # w" arbitrary: w rule: star.induct)
    case (star_step u v)
    show ?case
    proof (cases u)
      case Nil
      with star_step show ?thesis by simp
    next
      case (Cons b u')
      with star_step.hyps star_step.prems show ?thesis by auto
    qed
  qed
next
  assume "\<exists>u v. w = u @ v \<and> a # u \<in> A \<and> v \<in> star A"
  then obtain u v where "w = u @ v" "a # u \<in> A" "v \<in> star A" by blast
  then show "a # w \<in> star A"
    using star.star_step [of "a # u" A v] by simp
qed

lemma lang_deriv: "lang (deriv a r) = {w. a # w \<in> lang r}"
proof (induction r)
  case (Seq r s)
  then show ?case
    by (auto simp: nullable_lang Cons_eq_append_conv)
next
  case (Star r)
  then show ?case by (auto simp: star_cons_iff)
qed auto

lemma fullmatch_lang: "fullmatch r w \<longleftrightarrow> w \<in> lang r"
  by (induction w arbitrary: r) (simp_all add: nullable_lang lang_deriv)

lemma star_sat: "w \<in> star (lang (Sat P)) \<longleftrightarrow> list_all P w"
proof
  assume "w \<in> star (lang (Sat P))"
  then show "list_all P w"
    by (induction rule: star.induct) auto
next
  assume "list_all P w"
  then show "w \<in> star (lang (Sat P))"
  proof (induction w)
    case Nil
    show ?case by (rule star.star_empty)
  next
    case (Cons c w)
    then have "[c] \<in> lang (Sat P)" and "w \<in> star (lang (Sat P))" by simp_all
    then have "[c] @ w \<in> star (lang (Sat P))" by (rule star.star_step)
    then show ?case by simp
  qed
qed

lemma lang_plus_digit: "w \<in> lang (Plus_re (Sat (isdigit nd))) \<longleftrightarrow> digits nd w"
proof
  assume "w \<in> lang (Plus_re (Sat (isdigit nd)))"
  then obtain u v where w: "w = u @ v" and u: "u \<in> lang (Sat (isdigit nd))"
    and v: "v \<in> star (lang (Sat (isdigit nd)))"
    by (auto simp: Plus_re_def simp del: lang.simps(3))
  from v have "list_all (isdigit nd) v" by (simp only: star_sat)
  with w u show "digits nd w"
    by (auto simp: digits_def)
next
  assume "digits nd w"
  then obtain c v where w: "w = [c] @ v" and c: "isdigit nd c" and v: "list_all (isdigit nd) v"
    by (cases w) (auto simp: digits_def)
  from c have "[c] \<in> lang (Sat (isdigit nd))" by simp
  moreover from v have "v \<in> star (lang (Sat (isdigit nd)))" by (simp only: star_sat)
  ultimately show "w \<in> lang (Plus_re (Sat (isdigit nd)))"
    unfolding w Plus_re_def lang.simps(6,7) by blast
qed

lemma lang_seq_iff:
  "w \<in> lang (Seq r s) \<longleftrightarrow> (\<exists>u v. w = u @ v \<and> u \<in> lang r \<and> v \<in> lang s)"
  by auto

lemma lang_version:
  "w \<in> lang (Seq (Lit 118) (Plus_re (Sat (isdigit nd)))) \<longleftrightarrow>
     (\<exists>c. digits nd c \<and> w = [118] @ c)"
  unfolding lang_seq_iff lang_plus_digit by auto

lemma lang_tail:
  "w \<in> lang (Seq (Plus_re (Sat (isdigit nd)))
               (Opt_re (Seq (Lit 118) (Plus_re (Sat (isdigit nd))))))
     \<longleftrightarrow> (\<exists>b. digits nd b \<and> (w = b \<or> (\<exists>c. digits nd c \<and> w = b @ [118] @ c)))"
proof -
  have opt: "\<And>v. v \<in> lang (Opt_re (Seq (Lit 118) (Plus_re (Sat (isdigit nd))))) \<longleftrightarrow>
      v = [] \<or> (\<exists>c. digits nd c \<and> v = [118] @ c)"
    unfolding Opt_re_def lang.simps(5) Un_iff lang_version by auto
  show ?thesis
    unfolding lang_seq_iff [of w] lang_plus_digit opt by auto
qed

lemma lang_arxiv_id_pattern: "s \<in> lang (arxiv_id_pattern nd) \<longleftrightarrow> arxiv_id nd s"
proof -
  have dot: "\<And>w. w \<in> lang (Seq (Lit 46) (Seq (Plus_re (Sat (isdigit nd)))
        (Opt_re (Seq (Lit 118) (Plus_re (Sat (isdigit nd)))))))
     \<longleftrightarrow> (\<exists>b. digits nd b \<and> (w = [46] @ b \<or> (\<exists>c. digits nd c \<and> w = [46] @ b @ [118] @ c)))"
    unfolding lang_seq_iff [of _ "Lit _"] lang_tail by auto
  show ?thesis
    unfolding arxiv_id_pattern_def arxiv_id_def cp_values str_def list.map
      lang_seq_iff [of s] lang_plus_digit dot
    by auto
qed

lemma isvalidid_iff:
  "isvalidid nd s \<longleftrightarrow> arxiv_id nd s \<or> (\<exists>t. s = t @ [newline] \<and> arxiv_id nd t)"
proof -
  have "(s \<noteq> [] \<and> last s = newline \<and> arxiv_id nd (butlast s)) \<longleftrightarrow>
      (\<exists>t. s = t @ [newline] \<and> arxiv_id nd t)"
    by (metis butlast_snoc last_snoc snoc_eq_iff_butlast)
  then show ?thesis
    by (simp add: isvalidid_def re_match_anchored_def fullmatch_lang lang_arxiv_id_pattern)
qed

subsection \<open>Stripping the version of an accepted identifier\<close>

lemma not_isdigit_ascii: "c \<le> 127 \<Longrightarrow> c < 48 \<or> 57 < c \<Longrightarrow> \<not> isdigit nd c"
  by (auto simp: isdigit_def)

lemma digits_no_v: "digits nd a \<Longrightarrow> 118 \<notin> set a"
  using not_isdigit_ascii [of 118 nd] by (auto simp: digits_def list_all_iff)

lemma digits_no_newline: "digits nd a \<Longrightarrow> newline \<notin> set a"
  using not_isdigit_ascii [of 10 nd] by (auto simp: digits_def list_all_iff newline_def)

lemma takeWhile_no_sep: "sep \<notin> set w \<Longrightarrow> takeWhile (\<lambda>c. c \<noteq> sep) w = w"
  by (induction w) auto

lemma takeWhile_at_sep:
  "sep \<notin> set w \<Longrightarrow> takeWhile (\<lambda>c. c \<noteq> sep) (w @ sep # r) = w"
  by (induction w) auto

lemma isvalidid_takeWhile:
  assumes "isvalidid nd s"
  shows "isvalidid nd (takeWhile (\<lambda>c. c \<noteq> 118) s)"
proof -
  from assms obtain t r where s: "s = t @ r" and r: "r = [] \<or> r = [newline]"
    and t: "arxiv_id nd t"
    unfolding isvalidid_iff by auto
  from r have rv: "118 \<notin> set r" by (auto simp: newline_def)
  from t obtain a b where a: "digits nd a" and b: "digits nd b"
    and cases: "t = a @ [46] @ b \<or> (\<exists>c. digits nd c \<and> t = a @ [46] @ b @ [118] @ c)"
    unfolding arxiv_id_def str_def by auto
  have ab: "118 \<notin> set (a @ [46] @ b)"
    using digits_no_v [OF a] digits_no_v [OF b] by simp
  from cases show ?thesis
  proof
    assume "t = a @ [46] @ b"
    with ab rv s have "118 \<notin> set s" by simp
    then have "takeWhile (\<lambda>c. c \<noteq> 118) s = s" by (rule takeWhile_no_sep)
    with assms show ?thesis by (simp only:)
  next
    assume "\<exists>c. digits nd c \<and> t = a @ [46] @ b @ [118] @ c"
    then obtain c where "t = a @ [46] @ b @ [118] @ c" by blast
    with s have "s = (a @ [46] @ b) @ 118 # (c @ r)" by simp
    then have "takeWhile (\<lambda>c. c \<noteq> 118) s = a @ [46] @ b"
      using takeWhile_at_sep [OF ab] by (simp only:)
    moreover have "arxiv_id nd (a @ [46] @ b)"
      unfolding arxiv_id_def str_def using a b by auto
    ultimately show ?thesis by (simp only: isvalidid_iff) blast
  qed
qed

lemmas isvalidid_eval =
  isvalidid_def re_match_anchored_def arxiv_id_pattern_def Plus_re_def Opt_re_def isdigit_def
  newline_def str_def cp_def

lemma strip_version_examples:
  "strip_version (str ''1511.08198v1'') = Inr (str ''1511.08198'')"
  "strip_version (str ''1511.08198'') = Inr (str ''1511.08198'')"
  by (simp_all add: strip_version_def str_def cp_def)

text \<open>
  Claim C7. For every string \<open>idstr\<close>, \<open>strip_version\<close> returns (it never raises) the prefix
  \<open>p\<close> of \<open>idstr\<close> that ends just before the first \<^verbatim>\<open>v\<close>: \<open>p\<close> holds no \<^verbatim>\<open>v\<close> and is followed
  by one in \<open>idstr\<close>. When \<open>idstr\<close> holds no \<^verbatim>\<open>v\<close>, the result is \<open>idstr\<close> itself. The two
  examples of the specification are evaluated.
\<close>

theorem strip_version_first_segment:
  "(\<exists>p. strip_version idstr = Inr p \<and> cp (CHR ''v'') \<notin> set p \<and>
       (if cp (CHR ''v'') \<in> set idstr then \<exists>rest. idstr = p @ cp (CHR ''v'') # rest
        else p = idstr)) \<and>
   strip_version (str ''1511.08198v1'') = Inr (str ''1511.08198'') \<and>
   strip_version (str ''1511.08198'') = Inr (str ''1511.08198'')"
proof -
  let ?P = "\<lambda>c. c \<noteq> (118 :: nat)"
  let ?p = "takeWhile ?P idstr"
  have 1: "strip_version idstr = Inr ?p" by (rule strip_version_takeWhile)
  have 2: "118 \<notin> set ?p"
    by (auto dest: set_takeWhileD)
  have 3: "\<exists>rest. idstr = ?p @ 118 # rest" if "118 \<in> set idstr"
  proof -
    from that obtain ys zs where "idstr = ys @ 118 # zs" and "118 \<notin> set ys"
      by (auto dest: split_list_first)
    then show ?thesis
      using takeWhile_at_sep [of 118 ys zs] by auto
  qed
  have 4: "?p = idstr" if "118 \<notin> set idstr"
    using that by (rule takeWhile_no_sep)
  have "\<exists>p. strip_version idstr = Inr p \<and> 118 \<notin> set p \<and>
       (if 118 \<in> set idstr then \<exists>rest. idstr = p @ 118 # rest else p = idstr)"
  proof (cases "118 \<in> set idstr")
    case True
    with 1 2 3 show ?thesis by (intro exI [of _ ?p]) (simp only: if_True simp_thms)
  next
    case False
    with 1 2 4 show ?thesis by (intro exI [of _ ?p]) (simp only: if_False simp_thms)
  qed
  with strip_version_examples show ?thesis by (simp only: simp_thms cp_values)
qed

theorem strip_version_first_segment_witness:
  "(\<exists>p. strip_version (str ''1511.08198v1'') = Inr p \<and> cp (CHR ''v'') \<notin> set p \<and>
        str ''1511.08198v1'' = p @ str ''v1'') \<and>
   (\<exists>p. strip_version (str ''1511.08198'') = Inr p \<and> p = str ''1511.08198'')"
  using strip_version_first_segment [of "str ''1511.08198v1''"]
  by (simp add: str_def cp_def)

lemma isvalidid_unicode_digits:
  "isvalidid arabic_indic [0x661, 0x662, 0x2E, 0x663, 0x76, 0x664]"
  by (simp add: isvalidid_eval arabic_indic_def)

text \<open>
  Claim C10. For every table of Unicode decimal digits and every string \<open>s\<close> that
  \<open>isvalidid\<close> accepts, \<open>strip_version s\<close> returns a string \<open>t\<close> without \<^verbatim>\<open>v\<close>, \<open>isvalidid\<close>
  accepts \<open>t\<close> too, and stripping \<open>t\<close> again returns \<open>t\<close>.
\<close>

theorem strip_version_valid_idempotent:
  assumes "isvalidid nd s"
  shows "\<exists>t. strip_version s = Inr t \<and> cp (CHR ''v'') \<notin> set t \<and> isvalidid nd t \<and>
             strip_version t = Inr t"
proof -
  let ?t = "takeWhile (\<lambda>c. c \<noteq> (118 :: nat)) s"
  have 1: "strip_version s = Inr ?t" by (rule strip_version_takeWhile)
  have 2: "118 \<notin> set ?t" by (auto dest: set_takeWhileD)
  have 3: "isvalidid nd ?t" using assms by (rule isvalidid_takeWhile)
  have 4: "strip_version ?t = Inr ?t"
    using strip_version_takeWhile [of ?t] takeWhile_no_sep [OF 2] by (simp only:)
  from 1 2 3 4 show ?thesis unfolding cp_values by blast
qed

theorem strip_version_valid_idempotent_witness:
  "isvalidid arabic_indic [0x661, 0x662, 0x2E, 0x663, 0x76, 0x664] \<and>
   (\<exists>t. strip_version [0x661, 0x662, 0x2E, 0x663, 0x76, 0x664] = Inr t \<and>
        cp (CHR ''v'') \<notin> set t \<and> isvalidid arabic_indic t \<and> strip_version t = Inr t) \<and>
   isvalidid ascii_only (str ''1511.08198v1'') \<and>
   (\<exists>t. strip_version (str ''1511.08198v1'') = Inr t \<and>
        cp (CHR ''v'') \<notin> set t \<and> isvalidid ascii_only t \<and> strip_version t = Inr t)"
proof -
  have h: "isvalidid arabic_indic [0x661, 0x662, 0x2E, 0x663, 0x76, 0x664]"
    by (rule isvalidid_unicode_digits)
  have k: "isvalidid ascii_only (str ''1511.08198v1'')"
    by (simp add: isvalidid_eval)
  from strip_version_valid_idempotent [OF h] strip_version_valid_idempotent [OF k] h k
  show ?thesis by (simp only: simp_thms)
qed

lemma arxiv_id_no_newline: "arxiv_id nd s \<Longrightarrow> newline \<notin> set s"
  unfolding arxiv_id_def str_def using digits_no_newline [of nd]
  by (auto simp: newline_def)

text \<open>
  Claim C6. The four examples of the specification evaluate as it says, whatever the table
  of digits beyond ASCII. The equivalence fails: \<^verbatim>\<open>$\<close> also matches before a final newline,
  so \<open>isvalidid\<close> accepts \<^verbatim>\<open>"1511.08198\n"\<close>, which is not of the form digits, dot, digits,
  optional \<^verbatim>\<open>v\<close> and digits, with nothing after.
\<close>

theorem isvalidid_accepts_trailing_newline:
  "isvalidid nd (str ''1511.08198'') \<and> isvalidid nd (str ''1511.08198v1'') \<and>
   \<not> isvalidid nd (str ''abc'') \<and> \<not> isvalidid nd (str ''1511.08198v'') \<and>
   isvalidid nd (str ''1511.08198'' @ [newline]) \<and>
   \<not> arxiv_id nd (str ''1511.08198'' @ [newline])"
proof -
  have "\<not> arxiv_id nd (str ''1511.08198'' @ [newline])"
    using arxiv_id_no_newline [of nd "str ''1511.08198'' @ [newline]"] by auto
  moreover have "isvalidid nd (str ''1511.08198'')" "isvalidid nd (str ''1511.08198v1'')"
    "\<not> isvalidid nd (str ''abc'')" "\<not> isvalidid nd (str ''1511.08198v'')"
    "isvalidid nd (str ''1511.08198'' @ [newline])"
    by (simp_all add: isvalidid_eval)
  ultimately show ?thesis by (simp only: simp_thms)
qed

section \<open>Properties of the configuration loader\<close>

lemma find_char_None: "find_char c s = None \<longleftrightarrow> c \<notin> set s"
  by (induction s) auto

lemma before_get_no_percent:
  assumes "CHR ''%'' \<notin> set v"
  shows "before_get section option v d = Inr v"
proof -
  from assms have "find_char (CHR ''%'') v = None" by (simp add: find_char_None)
  then show ?thesis
    by (simp add: before_get_def interpolate_some.simps interpolate_loop.simps
        MAX_INTERPOLATION_DEPTH_def)
qed

lemma optionxform_vars_list: "k \<in> set vars_list \<Longrightarrow> optionxform k = k"
  by (auto simp: vars_list_def optionxform_def lower_char_def)

lemma parser_get_plain:
  assumes "sections p section = Some sd"
    and "optionxform k = k"
    and "(defaults p ++ sd) k = Some v"
    and "CHR ''%'' \<notin> set v"
  shows "parser_get p section k = Inr v"
  using assms
  by (simp add: parser_get_def unify_values_def before_get_no_percent
      del: map_add_Some_iff map_add_None)

lemma parser_get_missing:
  assumes "sections p section = Some sd"
    and "optionxform k = k"
    and "(defaults p ++ sd) k = None"
  shows "parser_get p section k = Inl (NoOptionError k section)"
  using assms
  by (simp add: parser_get_def unify_values_def del: map_add_Some_iff map_add_None)

lemma populate_loop_append:
  "populate_loop self (xs @ ys) =
     (case populate_loop self xs of Inl e \<Rightarrow> Inl e | Inr c \<Rightarrow> populate_loop c ys)"
  by (induction xs arbitrary: self) (auto split: sum.splits)

lemma populate_loop_plain:
  assumes "sections (parser self) ''arxiv-sanity'' = Some sd"
    and "\<forall>k \<in> set ks. optionxform k = k \<and>
           (\<exists>v. (defaults (parser self) ++ sd) k = Some v \<and> CHR ''%'' \<notin> set v)"
  shows "\<exists>cfg. populate_loop self ks = Inr cfg \<and> parser cfg = parser self \<and>
           config_file cfg = config_file self \<and>
           (\<forall>k. attrs cfg k =
              (if k \<in> set ks then (defaults (parser self) ++ sd) k else attrs self k))"
  using assms
proof (induction ks arbitrary: self)
  case Nil
  then show ?case by simp
next
  case (Cons k ks)
  from Cons.prems obtain v where xf: "optionxform k = k"
    and v: "(defaults (parser self) ++ sd) k = Some v" and pc: "CHR ''%'' \<notin> set v"
    by (meson list.set_intros(1))
  let ?self' = "self\<lparr>attrs := (attrs self)(k \<mapsto> v)\<rparr>"
  have get: "parser_get (parser self) ''arxiv-sanity'' k = Inr v"
    using Cons.prems(1) xf v pc by (rule parser_get_plain)
  have "\<exists>cfg. populate_loop ?self' ks = Inr cfg \<and> parser cfg = parser ?self' \<and>
           config_file cfg = config_file ?self' \<and>
           (\<forall>k. attrs cfg k =
              (if k \<in> set ks then (defaults (parser ?self') ++ sd) k else attrs ?self' k))"
    using Cons.prems by (intro Cons.IH) simp_all
  then obtain cfg where "populate_loop ?self' ks = Inr cfg" "parser cfg = parser self"
    "config_file cfg = config_file self"
    "\<forall>k. attrs cfg k = (if k \<in> set ks then (defaults (parser self) ++ sd) k else attrs ?self' k)"
    by auto
  with get v show ?case by (auto simp del: map_add_Some_iff map_add_None)
qed

lemmas cfg_eval =
  ConfigFromFile_def parser_read_def os_read_file_def file_at_def fault_at_def has_nul_def
  cfg_os_def check_config_def
  has_section_def populate_vars_def vars_list_def parser_get_def unify_values_def
  optionxform_def lower_char_def before_get_def interpolate_some.simps interpolate_loop.simps
  MAX_INTERPOLATION_DEPTH_def keycre_match_def loaded_attr_def default_section_def

lemma parser_read_ok:
  "os_read_file st f = Inr content \<Longrightarrow> parser_read ini st f = ini content"
  by (simp add: parser_read_def)



lemma ConfigFromFile_no_section:
  assumes "parser_read ini st f = Inr p" and "\<not> has_section p ''arxiv-sanity''"
  shows "ConfigFromFile ini st f =
           Inl (ValueError (''Config file '' @ f @ '' doesn't have section [arxiv-sanity]''))"
  using assms by (simp add: ConfigFromFile_def check_config_def)

lemma ConfigFromFile_section:
  assumes "parser_read ini st f = Inr p" and "sections p ''arxiv-sanity'' = Some sd"
  shows "ConfigFromFile ini st f =
           populate_loop \<lparr>config_file = f, parser = p, attrs = Map.empty\<rparr> vars_list"
  using assms by (simp add: ConfigFromFile_def check_config_def has_section_def populate_vars_def)




text \<open>
  Claim C4, as amended. For every file that is read and parsed, has the section
  \<^verbatim>\<open>[arxiv-sanity]\<close> and in it all 15 required keys with values that hold no \<^verbatim>\<open>%\<close>, the
  construction succeeds and each required attribute is the value of the section, as a
  string, unchanged (also when \<^verbatim>\<open>[DEFAULT]\<close> has another value for the key).
\<close>

theorem config_load_verbatim:
  assumes "os_read_file st cfg_file = Inr content"
    and "ini content = Inr p"
    and "sections p ''arxiv-sanity'' = Some sd"
    and "\<forall>k \<in> set vars_list. \<exists>v. sd k = Some v \<and> CHR ''%'' \<notin> set v"
  shows "\<exists>self. ConfigFromFile ini st cfg_file = Inr self \<and>
           (\<forall>k \<in> set vars_list. attrs self k = sd k)"
proof -
  let ?self = "\<lparr>config_file = cfg_file, parser = p, attrs = Map.empty\<rparr>"
  have read: "parser_read ini st cfg_file = Inr p"
    using assms(1,2) by (simp add: parser_read_ok)
  have keys: "\<forall>k \<in> set vars_list. optionxform k = k \<and>
      (\<exists>v. (defaults p ++ sd) k = Some v \<and> CHR ''%'' \<notin> set v)"
  proof (intro ballI conjI)
    fix k assume k: "k \<in> set vars_list"
    then show "optionxform k = k" by (rule optionxform_vars_list)
    from k assms(4) obtain v where v: "sd k = Some v" "CHR ''%'' \<notin> set v" by blast
    then have "(defaults p ++ sd) k = Some v" by (simp add: map_add_Some_iff)
    with v(2) show "\<exists>v. (defaults p ++ sd) k = Some v \<and> CHR ''%'' \<notin> set v"
      by (intro exI [of _ v] conjI)
  qed
  have "\<exists>self. populate_loop ?self vars_list = Inr self \<and> parser self = parser ?self \<and>
           config_file self = config_file ?self \<and>
           (\<forall>k. attrs self k =
              (if k \<in> set vars_list then (defaults (parser ?self) ++ sd) k else attrs ?self k))"
    using assms(3) keys by (intro populate_loop_plain) simp_all
  then obtain self where
    self: "populate_loop ?self vars_list = Inr self"
    and at: "\<forall>k. attrs self k = (if k \<in> set vars_list then (defaults p ++ sd) k else None)"
    by auto
  have "attrs self k = sd k" if "k \<in> set vars_list" for k
  proof -
    from that assms(4) obtain v where "sd k = Some v" by blast
    with at that show ?thesis by (simp add: map_add_Some_iff)
  qed
  with self ConfigFromFile_section [OF read assms(3)] show ?thesis by simp
qed

lemma plain_section_keys:
  "\<forall>k \<in> set vars_list. \<exists>v. plain_section k = Some v \<and> CHR ''%'' \<notin> set v"
  by (simp add: vars_list_def plain_section_def)

lemma cfg_os_read: "os_read_file cfg_os ''arxiv-sanity.cfg'' = Inr ''[arxiv-sanity] ...''"
  by (simp add: os_read_file_def file_at_def fault_at_def has_nul_def cfg_os_def)

theorem config_load_verbatim_witness:
  "\<exists>self. ConfigFromFile (\<lambda>content. Inr plain_parser) cfg_os ''arxiv-sanity.cfg'' = Inr self \<and>
      attrs self ''data_root'' = Some ''/srv/data_root'' \<and>
      attrs self ''tmp_dir'' = Some ''/srv/tmp_dir''"
proof -
  have s: "sections plain_parser ''arxiv-sanity'' = Some plain_section"
    by (simp add: plain_parser_def)
  have "''data_root'' \<in> set vars_list" "''tmp_dir'' \<in> set vars_list"
    "plain_section ''data_root'' = Some ''/srv/data_root''"
    "plain_section ''tmp_dir'' = Some ''/srv/tmp_dir''"
    by (simp_all add: vars_list_def plain_section_def)
  with config_load_verbatim [where st = cfg_os and cfg_file = "''arxiv-sanity.cfg''"
      and ini = "\<lambda>content. Inr plain_parser" and p = plain_parser and sd = plain_section,
      OF cfg_os_read _ s plain_section_keys]
  show ?thesis by fastforce
qed

text \<open>
  Claim C4 as stated fails: \<^verbatim>\<open>parser.get\<close> interpolates, so the line
  \<^verbatim>\<open>beg_for_hosting_money = 100%%\<close> yields the attribute \<^verbatim>\<open>100%\<close>.
\<close>

theorem config_percent_not_verbatim:
  "sections percent_parser ''arxiv-sanity'' = Some percent_section \<and>
   list_all (\<lambda>k. percent_section k \<noteq> None) vars_list \<and>
   percent_section ''beg_for_hosting_money'' = Some ''100%%'' \<and>
   loaded_attr (ConfigFromFile (\<lambda>content. Inr percent_parser) cfg_os ''arxiv-sanity.cfg'')
     ''beg_for_hosting_money'' = Inr (Some ''100%'')"
proof -
  have "loaded_attr (ConfigFromFile (\<lambda>content. Inr percent_parser) cfg_os ''arxiv-sanity.cfg'')
     ''beg_for_hosting_money'' = Inr (Some ''100%'')"
    by (simp add: cfg_eval percent_parser_def percent_section_def plain_section_def)
  moreover have "list_all (\<lambda>k. percent_section k \<noteq> None) vars_list"
    by (simp add: vars_list_def percent_section_def plain_section_def)
  ultimately show ?thesis
    by (simp add: percent_parser_def percent_section_def)
qed

text \<open>
  Claim C5, as amended. For a file that is read and parsed: the construction raises
  \<^verbatim>\<open>ValueError\<close> when the file has no \<^verbatim>\<open>[arxiv-sanity]\<close> section; when the section is
  there, it raises \<^verbatim>\<open>NoOptionError\<close> for the first required key that is neither in the
  section nor in \<^verbatim>\<open>[DEFAULT]\<close>, provided the required keys before it have values without
  \<^verbatim>\<open>%\<close>; and it does not raise when every required key has a value without \<^verbatim>\<open>%\<close> in the
  section or in \<^verbatim>\<open>[DEFAULT]\<close>.
\<close>

theorem config_load_errors:
  assumes "os_read_file st cfg_file = Inr content" and "ini content = Inr p"
  shows "(\<not> has_section p ''arxiv-sanity'' \<longrightarrow>
            ConfigFromFile ini st cfg_file =
              Inl (ValueError (''Config file '' @ cfg_file @
                               '' doesn't have section [arxiv-sanity]''))) \<and>
         (\<forall>sd pre k post.
            sections p ''arxiv-sanity'' = Some sd \<and> vars_list = pre @ k # post \<and>
            (\<forall>j \<in> set pre. \<exists>v. (defaults p ++ sd) j = Some v \<and> CHR ''%'' \<notin> set v) \<and>
            (defaults p ++ sd) k = None \<longrightarrow>
            ConfigFromFile ini st cfg_file = Inl (NoOptionError k ''arxiv-sanity'')) \<and>
         (\<forall>sd.
            sections p ''arxiv-sanity'' = Some sd \<and>
            (\<forall>j \<in> set vars_list. \<exists>v. (defaults p ++ sd) j = Some v \<and> CHR ''%'' \<notin> set v) \<longrightarrow>
            (\<exists>self. ConfigFromFile ini st cfg_file = Inr self))"
proof -
  let ?self = "\<lparr>config_file = cfg_file, parser = p, attrs = Map.empty\<rparr>"
  have read: "parser_read ini st cfg_file = Inr p"
    using assms by (simp add: parser_read_ok)
  have 1: "ConfigFromFile ini st cfg_file =
      Inl (ValueError (''Config file '' @ cfg_file @ '' doesn't have section [arxiv-sanity]''))"
    if "\<not> has_section p ''arxiv-sanity''"
    using read that by (rule ConfigFromFile_no_section)
  have run: "\<exists>self. populate_loop ?self ks = Inr self \<and> parser self = p"
    if sd: "sections p ''arxiv-sanity'' = Some sd" and sub: "set ks \<subseteq> set vars_list"
      and ok: "\<forall>j \<in> set ks. \<exists>v. (defaults p ++ sd) j = Some v \<and> CHR ''%'' \<notin> set v"
    for sd ks
  proof -
    have "\<forall>k \<in> set ks. optionxform k = k \<and>
        (\<exists>v. (defaults (parser ?self) ++ sd) k = Some v \<and> CHR ''%'' \<notin> set v)"
      using sub ok optionxform_vars_list by (auto simp del: map_add_Some_iff)
    moreover have "sections (parser ?self) ''arxiv-sanity'' = Some sd" using sd by simp
    ultimately have "\<exists>cfg. populate_loop ?self ks = Inr cfg \<and> parser cfg = parser ?self \<and>
           config_file cfg = config_file ?self \<and>
           (\<forall>k. attrs cfg k =
              (if k \<in> set ks then (defaults (parser ?self) ++ sd) k else attrs ?self k))"
      by (intro populate_loop_plain)
    then show ?thesis by auto
  qed
  have 2: "ConfigFromFile ini st cfg_file = Inl (NoOptionError k ''arxiv-sanity'')"
    if sd: "sections p ''arxiv-sanity'' = Some sd" and split: "vars_list = pre @ k # post"
      and ok: "\<forall>j \<in> set pre. \<exists>v. (defaults p ++ sd) j = Some v \<and> CHR ''%'' \<notin> set v"
      and missing: "(defaults p ++ sd) k = None"
    for sd pre k post
  proof -
    have "set pre \<subseteq> set vars_list" and k: "k \<in> set vars_list"
      unfolding split by auto
    from run [OF sd this(1) ok] obtain self where
      self: "populate_loop ?self pre = Inr self" and p: "parser self = p" by blast
    have "parser_get (parser self) ''arxiv-sanity'' k = Inl (NoOptionError k ''arxiv-sanity'')"
      using sd optionxform_vars_list [OF k] missing unfolding p by (rule parser_get_missing)
    then have "populate_loop self (k # post) = Inl (NoOptionError k ''arxiv-sanity'')"
      by simp
    with self have "populate_loop ?self vars_list = Inl (NoOptionError k ''arxiv-sanity'')"
      unfolding split populate_loop_append by simp
    with ConfigFromFile_section [OF read sd] show ?thesis by simp
  qed
  have 3: "\<exists>self. ConfigFromFile ini st cfg_file = Inr self"
    if sd: "sections p ''arxiv-sanity'' = Some sd"
      and ok: "\<forall>j \<in> set vars_list. \<exists>v. (defaults p ++ sd) j = Some v \<and> CHR ''%'' \<notin> set v"
    for sd
    using run [OF sd subset_refl ok] ConfigFromFile_section [OF read sd] by auto
  from 1 2 3 show ?thesis by blast
qed

theorem config_load_errors_witness:
  "ConfigFromFile (\<lambda>content. Inr other_parser) cfg_os ''arxiv-sanity.cfg'' =
     Inl (ValueError ''Config file arxiv-sanity.cfg doesn't have section [arxiv-sanity]'') \<and>
   ConfigFromFile (\<lambda>content. Inr short_parser) cfg_os ''arxiv-sanity.cfg'' =
     Inl (NoOptionError ''data_root'' ''arxiv-sanity'') \<and>
   (\<exists>self. ConfigFromFile (\<lambda>content. Inr plain_parser) cfg_os ''arxiv-sanity.cfg'' = Inr self)"
proof -
  have a: "\<not> has_section other_parser ''arxiv-sanity''"
    by (simp add: has_section_def other_parser_def)
  have b: "sections short_parser ''arxiv-sanity'' = Some short_section \<and>
      vars_list = [] @ ''data_root'' # tl vars_list \<and>
      (\<forall>j \<in> set []. \<exists>v. (defaults short_parser ++ short_section) j = Some v \<and>
         CHR ''%'' \<notin> set v) \<and>
      (defaults short_parser ++ short_section) ''data_root'' = None"
    by (simp add: short_parser_def short_section_def vars_list_def)
  have c: "sections plain_parser ''arxiv-sanity'' = Some plain_section \<and>
      (\<forall>j \<in> set vars_list. \<exists>v. (defaults plain_parser ++ plain_section) j = Some v \<and>
         CHR ''%'' \<notin> set v)"
    using plain_section_keys by (simp add: plain_parser_def)
  note t = config_load_errors [where st = cfg_os and cfg_file = "''arxiv-sanity.cfg''",
      OF cfg_os_read]
  have 1: "ConfigFromFile (\<lambda>content. Inr other_parser) cfg_os ''arxiv-sanity.cfg'' =
     Inl (ValueError (''Config file '' @ ''arxiv-sanity.cfg'' @
       '' doesn't have section [arxiv-sanity]''))"
    using t [where ini = "\<lambda>content. Inr other_parser" and p = other_parser] a by blast
  have 2: "ConfigFromFile (\<lambda>content. Inr short_parser) cfg_os ''arxiv-sanity.cfg'' =
     Inl (NoOptionError ''data_root'' ''arxiv-sanity'')"
    using t [where ini = "\<lambda>content. Inr short_parser" and p = short_parser] b by blast
  have 3: "\<exists>self. ConfigFromFile (\<lambda>content. Inr plain_parser) cfg_os ''arxiv-sanity.cfg'' =
     Inr self"
    using t [where ini = "\<lambda>content. Inr plain_parser" and p = plain_parser] c by blast
  from 1 2 3 show ?thesis by simp
qed

text \<open>
  Claim C5 as stated fails: a key that is absent from the section is looked up in
  \<^verbatim>\<open>[DEFAULT]\<close>, and when it is there the construction does not raise.
\<close>

theorem config_default_supplies_missing_key:
  "sections default_parser ''arxiv-sanity'' = Some short_section \<and>
   short_section ''data_root'' = None \<and>
   loaded_attr (ConfigFromFile (\<lambda>content. Inr default_parser) cfg_os ''arxiv-sanity.cfg'')
     ''data_root'' = Inr (Some ''/srv'')"
proof -
  have "loaded_attr (ConfigFromFile (\<lambda>content. Inr default_parser) cfg_os ''arxiv-sanity.cfg'')
     ''data_root'' = Inr (Some ''/srv'')"
    by (simp add: cfg_eval default_parser_def short_section_def)
  then show ?thesis
    by (simp add: default_parser_def short_section_def vars_list_def)
qed

section \<open>Properties of the atomic writes\<close>

subsection \<open>What the system calls change\<close>

lemma same_except_refl: "same_except p st st"
  by (simp add: same_except_def)

lemma same_except_trans:
  "same_except p st st' \<Longrightarrow> same_except p st' st'' \<Longrightarrow> same_except p st st''"
  by (simp add: same_except_def)

lemma same_except_put: "same_except p st (put_file st p v)"
  by (simp add: same_except_def put_file_def)

lemma same_except_fault: "same_except p st st' \<Longrightarrow> fault_at st' call q = fault_at st call q"
  by (simp add: same_except_def fault_at_def)

lemma same_except_resolve: "same_except p st st' \<Longrightarrow> resolve st' = resolve st"
  by (simp add: same_except_def)

lemma same_except_other:
  "same_except p st st' \<Longrightarrow> resolve st q \<noteq> resolve st p \<Longrightarrow> file_at st' q = file_at st q"
  by (simp add: same_except_def file_at_def)

lemma file_at_put: "file_at (put_file st p v) p = v"
  by (simp add: file_at_def put_file_def)

lemma file_at_put_other:
  "resolve st q \<noteq> resolve st p \<Longrightarrow> file_at (put_file st p v) q = file_at st q"
  by (simp add: file_at_def put_file_def)

lemma file_at_put_same:
  "resolve st q = resolve st p \<Longrightarrow> file_at (put_file st p v) q = v"
  by (simp add: file_at_def put_file_def)

lemma fault_at_put: "fault_at (put_file st p v) call q = fault_at st call q"
  by (simp add: fault_at_def put_file_def)

lemma resolve_put: "resolve (put_file st p v) = resolve st"
  by (simp add: put_file_def)

lemma written_refl: "written p st st"
  by (simp add: written_def same_except_refl)

lemma written_trans: "written p st st' \<Longrightarrow> written p st' st'' \<Longrightarrow> written p st st''"
  by (auto simp: written_def intro: same_except_trans)

lemma written_put: "file_at st p \<noteq> None \<Longrightarrow> written p st (put_file st p (Some c))"
  by (simp add: written_def same_except_put file_at_put)

lemma os_create_excl_result:
  assumes "os_create_excl st p = Inr st'"
  shows "\<not> has_nul p \<and> file_at st p = None \<and> st' = put_file st p (Some [])"
  using assms by (auto simp: os_create_excl_def split: option.splits if_splits)

lemma mkstemp_inner_result:
  assumes "mkstemp_inner st dir names = Inr (tmp, st1)"
  shows "\<not> has_nul tmp \<and> file_at st tmp = None \<and> st1 = put_file st tmp (Some []) \<and>
         (\<exists>name \<in> set names. tmp = path_join dir (''tmp'' @ name))"
  using assms
proof (induction names)
  case Nil
  then show ?case by simp
next
  case (Cons name names)
  show ?case
  proof (cases "os_create_excl st (path_join dir (''tmp'' @ name))")
    case (Inr st')
    with Cons.prems have t: "tmp = path_join dir (''tmp'' @ name)" and s: "st1 = st'"
      by (simp_all add: Let_def)
    have "\<not> has_nul tmp \<and> file_at st tmp = None \<and> st1 = put_file st tmp (Some [])"
      unfolding t s by (rule os_create_excl_result [OF Inr])
    moreover have "\<exists>n \<in> set (name # names). tmp = path_join dir (''tmp'' @ n)"
      using t by simp
    ultimately show ?thesis by blast
  next
    case (Inl e)
    with Cons.prems have "mkstemp_inner st dir names = Inr (tmp, st1)"
      by (auto simp: Let_def split: exn.splits if_splits)
    from Cons.IH [OF this] show ?thesis by auto
  qed
qed

lemma mkstemp_result:
  assumes "mkstemp st dir = Inr (tmp, st1)"
  shows "\<not> has_nul tmp \<and> file_at st tmp = None \<and> st1 = put_file st tmp (Some []) \<and>
         (\<exists>name \<in> set (temp_names st). tmp = path_join dir (''tmp'' @ name))"
proof -
  from assms have "mkstemp_inner st dir (take (tmp_max st) (temp_names st)) = Inr (tmp, st1)"
    by (simp add: mkstemp_def)
  from mkstemp_inner_result [OF this] show ?thesis
    by (auto dest: in_set_takeD)
qed

lemma open_file_result:
  assumes "open_file st p mode = Inr (f, st')"
  shows "h_path f = p \<and> h_buffer f = [] \<and>
         h_writable f = (CHR ''r'' \<notin> set mode \<or> CHR ''+'' \<in> set mode) \<and>
         same_except p st st' \<and> file_at st' p \<noteq> None"
  using assms
  by (auto simp: open_file_def same_except_put file_at_put
      split: if_splits sum.splits option.splits)

lemma file_write_result:
  assumes "file_write f data = Inr f'"
  shows "h_path f' = h_path f \<and> h_writable f' = h_writable f"
  using assms by (auto simp: file_write_def split: if_splits)

lemma file_flush_result:
  assumes "file_flush st f = Inr (f', st')"
  shows "h_path f' = h_path f \<and> h_writable f' = h_writable f \<and> h_buffer f' = [] \<and>
         written (h_path f) st st'"
  using assms
  by (auto simp: file_flush_def written_refl written_put split: if_splits option.splits)

lemma file_close_result:
  assumes "file_close st f = Inr st'"
  shows "written (h_path f) st st'"
  using assms file_flush_result [of st f]
  by (auto simp: file_close_def split: sum.splits)

lemma run_body_result:
  assumes "run_body st f body = (r, f', st')"
  shows "h_path f' = h_path f \<and> written (h_path f) st st'"
  using assms
proof (induction st f body rule: run_body.induct)
  case (1 st f)
  then show ?case by (simp add: written_refl)
next
  case (2 st f data steps)
  show ?case
  proof (cases "file_write f data")
    case (Inl e)
    with 2 show ?thesis by (simp add: written_refl)
  next
    case (Inr f1)
    with 2 file_write_result [OF Inr] show ?thesis by simp
  qed
next
  case (3 st f steps)
  show ?case
  proof (cases "file_flush st f")
    case (Inl e)
    with 3 show ?thesis by (simp add: written_refl)
  next
    case (Inr a)
    obtain f1 st1 where a: "a = (f1, st1)" by (cases a)
    from 3 Inr a have rb: "run_body st1 f1 steps = (r, f', st')" by simp
    from "3.IH" Inr a rb have "h_path f' = h_path f1 \<and> written (h_path f1) st1 st'"
      by simp
    with file_flush_result [of st f f1 st1] Inr a show ?thesis
      by (metis written_trans)
  qed
next
  case (4 st f e steps)
  then show ?case by (simp add: written_refl)
qed

lemma written_same: "written p st st' \<Longrightarrow> same_except p st st'"
  by (simp add: written_def)

lemma written_exists: "written p st st' \<Longrightarrow> file_at st p \<noteq> None \<Longrightarrow> file_at st' p \<noteq> None"
  by (simp add: written_def)

lemma same_except_entry:
  "same_except p st st' \<Longrightarrow> resolve st q = resolve st p \<Longrightarrow> file_at st' q = file_at st' p"
  by (simp add: same_except_def file_at_def)

lemma errno_of_not_ENOENT: "errno_of flt \<noteq> 2"
  by (cases flt) simp_all

lemma os_remove_ok:
  assumes "\<not> has_nul p" and "file_at st p \<noteq> None" and "fault_at st SysUnlink p = None"
  shows "os_remove st p = Inr (put_file st p None)"
  using assms by (auto simp: os_remove_def)

lemma os_remove_gone:
  assumes "\<not> has_nul p" and "file_at st p = None"
  shows "os_remove st p = Inl (OSError 2)"
  using assms by (simp add: os_remove_def ENOENT_def)

lemma os_remove_fault:
  assumes "\<not> has_nul p" and "file_at st p \<noteq> None" and "fault_at st SysUnlink p = Some flt"
  shows "os_remove st p = Inl (OSError (errno_of flt))"
  using assms by (auto simp: os_remove_def)

lemma tempfile_cleanup_ok:
  assumes "\<not> has_nul p" and "file_at st p \<noteq> None" and "fault_at st SysUnlink p = None"
  shows "tempfile_cleanup st p pending = (pending, put_file st p None)"
  using assms by (simp add: tempfile_cleanup_def os_remove_ok)

lemma tempfile_cleanup_gone:
  assumes "\<not> has_nul p" and "file_at st p = None"
  shows "tempfile_cleanup st p pending = (pending, st)"
  using assms by (simp add: tempfile_cleanup_def os_remove_gone)

lemma tempfile_cleanup_fault:
  assumes "\<not> has_nul p" and "file_at st p \<noteq> None" and "fault_at st SysUnlink p = Some flt"
  shows "tempfile_cleanup st p pending = (Some (OSError (errno_of flt)), st)"
  using assms by (simp add: tempfile_cleanup_def os_remove_fault errno_of_not_ENOENT)

lemma tempfile_cleanup_pending: "fst (tempfile_cleanup st p (Some e)) \<noteq> None"
  by (simp add: tempfile_cleanup_def split: sum.splits exn.splits)

lemma after_yield_result:
  assumes "after_yield st f fsync = (r, f', st')"
  shows "h_path f' = h_path f \<and> written (h_path f) st st'"
proof (cases fsync)
  case False
  with assms show ?thesis by (simp add: after_yield_def written_refl)
next
  case True
  show ?thesis
  proof (cases "file_flush st f")
    case (Inl e)
    with assms True show ?thesis by (simp add: after_yield_def written_refl)
  next
    case (Inr a)
    obtain f1 s1 where a: "a = (f1, s1)" by (cases a)
    with assms True Inr have "f' = f1" "st' = s1" by (simp_all add: after_yield_def)
    with file_flush_result [of st f f1 s1] Inr a show ?thesis by simp
  qed
qed

lemma with_open_result:
  assumes w: "with_open st p mode fsync body = (pending, st')"
    and ex: "file_at st p \<noteq> None"
  shows "written p st st'"
proof (cases "open_file st p mode")
  case (Inl e)
  with w show ?thesis by (simp add: with_open_def written_refl)
next
  case (Inr a)
  obtain f s1 where a: "a = (f, s1)" by (cases a)
  from Inr a have op: "open_file st p mode = Inr (f, s1)" by simp
  from open_file_result [OF op] have hf: "h_path f = p" and se: "same_except p st s1"
    and e1: "file_at s1 p \<noteq> None" by simp_all
  from se e1 ex have w1: "written p st s1" by (auto simp: written_def)
  obtain raised f1 s2 where rb: "run_body s1 f body = (raised, f1, s2)"
    by (cases "run_body s1 f body")
  from run_body_result [OF rb] hf have hf1: "h_path f1 = p" and w2: "written p s1 s2"
    by simp_all
  obtain pd f2 s3 where ay:
    "(case raised of Some e \<Rightarrow> (Some e, f1, s2) | None \<Rightarrow> after_yield s2 f1 fsync) = (pd, f2, s3)"
    by (cases "case raised of Some e \<Rightarrow> (Some e, f1, s2) | None \<Rightarrow> after_yield s2 f1 fsync")
  have "h_path f2 = p \<and> written p s2 s3"
  proof (cases raised)
    case None
    with ay have "after_yield s2 f1 fsync = (pd, f2, s3)" by simp
    from after_yield_result [OF this] hf1 show ?thesis by simp
  next
    case (Some e)
    with ay hf1 show ?thesis by (auto simp: written_refl)
  qed
  then have hf2: "h_path f2 = p" and w3: "written p s2 s3" by simp_all
  have w4: "written p s3 st'"
  proof (cases "file_close s3 f2")
    case (Inl e)
    with w op rb ay show ?thesis by (simp add: with_open_def written_refl)
  next
    case (Inr s4)
    with w op rb ay have "st' = s4" by (simp add: with_open_def)
    with file_close_result [OF Inr] hf2 show ?thesis by simp
  qed
  from w1 w2 w3 w4 show ?thesis by (blast intro: written_trans)
qed

lemma with_open_body_raises:
  assumes "open_file st1 tmp mode = Inr (f, st2)"
    and "run_body st2 f body = (Some e, f', st3)"
  shows "with_open st1 tmp mode fsync body =
           (Some (case file_close st3 f' of Inl e' \<Rightarrow> e' | Inr s \<Rightarrow> e),
            case file_close st3 f' of Inl e' \<Rightarrow> st3 | Inr s \<Rightarrow> s)"
  using assms by (simp add: with_open_def split: sum.splits)

lemma atomic_block_raises:
  assumes "with_open st1 tmp mode fsync body = (Some r, st2)"
  shows "atomic_block st1 tmp filepath mode fsync body = (Some r, st2)"
  using assms by (simp add: atomic_block_def)

lemma os_rename_result:
  assumes "os_rename st src dst = Inr st'"
  shows "\<not> has_nul dst \<and>
         (\<exists>c. file_at st src = Some c \<and>
           st' = (if resolve st src = resolve st dst then st
                  else put_file (put_file st dst (Some c)) src None))"
  using assms by (auto simp: os_rename_def split: option.splits if_splits)

lemma os_rename_error:
  assumes "os_rename st src dst = Inl e"
  shows "e = nul_error \<or> e = OSError ENOENT \<or> (\<exists>flt. e = OSError (errno_of flt))"
  using assms by (auto simp: os_rename_def split: option.splits if_splits)

lemma atomic_block_pending:
  assumes blk: "atomic_block st1 tmp filepath mode fsync body = (Some r, st3)"
    and ex: "file_at st1 tmp \<noteq> None"
  shows "written tmp st1 st3"
proof -
  obtain pd st2 where w: "with_open st1 tmp mode fsync body = (pd, st2)"
    by (cases "with_open st1 tmp mode fsync body")
  from with_open_result [OF w ex] have wr: "written tmp st1 st2" .
  show ?thesis
  proof (cases pd)
    case (Some e)
    with blk w have "st3 = st2" by (simp add: atomic_block_def)
    with wr show ?thesis by simp
  next
    case None
    with blk w have "st3 = st2"
      by (auto simp: atomic_block_def split: sum.splits)
    with wr show ?thesis by simp
  qed
qed

lemma atomic_block_None:
  assumes blk: "atomic_block st1 tmp filepath mode fsync body = (None, st3)"
  shows "\<exists>st2. with_open st1 tmp mode fsync body = (None, st2) \<and>
           os_rename st2 tmp filepath = Inr st3"
proof -
  obtain pd st2 where w: "with_open st1 tmp mode fsync body = (pd, st2)"
    by (cases "with_open st1 tmp mode fsync body")
  with blk show ?thesis
    by (auto simp: atomic_block_def split: option.splits sum.splits)
qed

lemma atomic_block_renamed:
  assumes blk: "atomic_block st1 tmp filepath mode fsync body = (None, st3)"
    and ex: "file_at st1 tmp \<noteq> None"
    and ne: "resolve st1 tmp \<noteq> resolve st1 filepath"
  shows "file_at st3 tmp = None"
proof -
  from atomic_block_None [OF blk] obtain st2 where
    w: "with_open st1 tmp mode fsync body = (None, st2)"
    and rn: "os_rename st2 tmp filepath = Inr st3" by blast
  from with_open_result [OF w ex] have "resolve st2 = resolve st1"
    by (simp add: written_def same_except_def)
  with os_rename_result [OF rn] ne obtain c where
    "st3 = put_file (put_file st2 filepath (Some c)) tmp None" by auto
  then show ?thesis by (simp add: file_at_put resolve_put)
qed

lemma atomic_block_resolve:
  assumes blk: "atomic_block st1 tmp filepath mode fsync body = (pending, st3)"
    and ex: "file_at st1 tmp \<noteq> None"
  shows "resolve st3 = resolve st1 \<and> faults st3 = faults st1"
proof (cases pending)
  case (Some r)
  with atomic_block_pending [OF _ ex] blk show ?thesis
    by (simp add: written_def same_except_def)
next
  case None
  with blk atomic_block_None obtain st2 where
    w: "with_open st1 tmp mode fsync body = (None, st2)"
    and rn: "os_rename st2 tmp filepath = Inr st3" by blast
  from with_open_result [OF w ex] have "resolve st2 = resolve st1 \<and> faults st2 = faults st1"
    by (simp add: written_def same_except_def)
  with os_rename_result [OF rn] show ?thesis
    by (auto simp: put_file_def split: if_splits)
qed

lemma open_atomic_unfold:
  assumes "mkstemp st (dirname filepath) = Inr (tmp, st1)"
    and "atomic_block st1 tmp filepath mode fsync body = (pending, st3)"
  shows "open_atomic st filepath mode fsync body = tempfile_cleanup st3 tmp pending"
  using assms by (simp add: open_atomic_def)

lemmas atomic_eval =
  open_atomic_def atomic_block_def mkstemp_def dirname_def path_join_def os_create_excl_def
  with_open_def open_file_def valid_mode_def open_content_def file_write_def file_flush_def
  file_close_def after_yield_def os_rename_def tempfile_cleanup_def os_remove_def
  file_at_def fault_at_def put_file_def has_nul_def nul_error_def
  ENOENT_def EEXIST_def atomic_os_def locked_os_def Let_def

subsection \<open>The caller's block raises\<close>

text \<open>
  Claim C1, as amended. The temporary file has been created and opened, and the caller's
  block raises \<open>e\<close> while it uses the handle (\<open>e\<close> may be the error of a write or a flush of
  the block itself). Then an exception reaches the caller and the rename is skipped: the
  outcome of the block under \<^verbatim>\<open>_tempfile\<close> is the outcome of the inner \<^verbatim>\<open>with\<close>. Whatever
  fails afterwards, a destination that is not the temporary file itself holds what it held
  before the call (nothing, if it did not exist). When removing the temporary file is not
  made to fail, the temporary file is removed, the destination is as before the call, and
  the caller gets the error of \<^verbatim>\<open>close\<close> if closing the handle fails and \<open>e\<close> otherwise. When
  removing the temporary file fails, the caller gets that error and the temporary file
  stays.
\<close>

theorem open_atomic_body_raises:
  assumes mk: "mkstemp st (dirname filepath) = Inr (tmp, st1)"
    and op: "open_file st1 tmp mode = Inr (f, st2)"
    and body: "run_body st2 f body = (Some e, f', st3)"
  shows "\<exists>r st'. open_atomic st filepath mode fsync body = (Some r, st') \<and>
           atomic_block st1 tmp filepath mode fsync body = with_open st1 tmp mode fsync body \<and>
           (resolve st filepath \<noteq> resolve st tmp \<longrightarrow>
              file_at st' filepath = file_at st filepath) \<and>
           (fault_at st SysUnlink tmp = None \<longrightarrow>
              r = (case file_close st3 f' of Inl e' \<Rightarrow> e' | Inr s \<Rightarrow> e) \<and>
              file_at st' tmp = None \<and> file_at st' filepath = file_at st filepath) \<and>
           (\<forall>flt. fault_at st SysUnlink tmp = Some flt \<longrightarrow>
              r = OSError (errno_of flt) \<and> file_at st' tmp \<noteq> None)"
proof -
  define r0 where "r0 = (case file_close st3 f' of Inl e' \<Rightarrow> e' | Inr s \<Rightarrow> e)"
  define st4 where "st4 = (case file_close st3 f' of Inl e' \<Rightarrow> st3 | Inr s \<Rightarrow> s)"
  from mkstemp_result [OF mk] have nn: "\<not> has_nul tmp" and fresh: "file_at st tmp = None"
    and st1: "st1 = put_file st tmp (Some [])" by simp_all
  have s1: "same_except tmp st st1" unfolding st1 by (rule same_except_put)
  have e1: "file_at st1 tmp \<noteq> None" unfolding st1 by (simp add: file_at_put)
  have w: "with_open st1 tmp mode fsync body = (Some r0, st4)"
    unfolding r0_def st4_def by (rule with_open_body_raises [OF op body])
  then have blk: "atomic_block st1 tmp filepath mode fsync body = (Some r0, st4)"
    by (rule atomic_block_raises)
  from with_open_result [OF w e1] have w4: "written tmp st1 st4" .
  have r1: "resolve st1 = resolve st" using s1 by (rule same_except_resolve)
  from written_same [OF w4] have s14: "same_except tmp st st4"
    using s1 same_except_trans by blast
  from written_exists [OF w4 e1] have e4: "file_at st4 tmp \<noteq> None" .
  have flt4: "fault_at st4 SysUnlink tmp = fault_at st SysUnlink tmp"
    using s14 by (rule same_except_fault)
  have oa: "open_atomic st filepath mode fsync body = tempfile_cleanup st4 tmp (Some r0)"
    by (rule open_atomic_unfold [OF mk blk])
  show ?thesis
  proof (cases "fault_at st SysUnlink tmp")
    case None
    let ?st' = "put_file st4 tmp None"
    from None flt4 have "tempfile_cleanup st4 tmp (Some r0) = (Some r0, ?st')"
      by (simp add: tempfile_cleanup_ok [OF nn e4])
    with oa have run: "open_atomic st filepath mode fsync body = (Some r0, ?st')" by simp
    have gone: "file_at ?st' tmp = None" by (simp add: file_at_put)
    have s': "same_except tmp st ?st'"
      using s14 same_except_put [of tmp st4 None] by (rule same_except_trans)
    have dest: "file_at ?st' filepath = file_at st filepath"
    proof (cases "resolve st filepath = resolve st tmp")
      case True
      from same_except_entry [OF s' True] gone have "file_at ?st' filepath = None" by simp
      moreover from True fresh have "file_at st filepath = None" by (simp add: file_at_def)
      ultimately show ?thesis by simp
    next
      case False
      with s' show ?thesis by (rule same_except_other)
    qed
    from run blk w gone dest None show ?thesis by (simp add: r0_def)
  next
    case (Some flt)
    with flt4 have "tempfile_cleanup st4 tmp (Some r0) = (Some (OSError (errno_of flt)), st4)"
      by (simp add: tempfile_cleanup_fault [OF nn e4])
    with oa have run: "open_atomic st filepath mode fsync body =
        (Some (OSError (errno_of flt)), st4)" by simp
    have dest: "resolve st filepath \<noteq> resolve st tmp \<longrightarrow>
        file_at st4 filepath = file_at st filepath"
      using s14 by (simp add: same_except_other)
    from run blk w e4 dest Some show ?thesis by simp
  qed
qed

theorem open_atomic_body_raises_witness:
  "fst (open_atomic atomic_os ''data/out.p'' ''wb'' False
          [Write ''x'', Raise (UserException ''boom'')]) = Some (UserException ''boom'') \<and>
   file_at (snd (open_atomic atomic_os ''data/out.p'' ''wb'' False
          [Write ''x'', Raise (UserException ''boom'')])) ''data/out.p'' = Some ''old'' \<and>
   file_at (snd (open_atomic atomic_os ''data/out.p'' ''wb'' False
          [Write ''x'', Raise (UserException ''boom'')])) ''data/tmpabcdefgh'' = None \<and>
   fst (open_atomic locked_os ''data/out.p'' ''wb'' False
          [Write ''x'', Raise (UserException ''boom'')]) = Some (OSError 13) \<and>
   file_at (snd (open_atomic locked_os ''data/out.p'' ''wb'' False
          [Write ''x'', Raise (UserException ''boom'')])) ''data/out.p'' = Some ''old'' \<and>
   file_at (snd (open_atomic locked_os ''data/out.p'' ''wb'' False
          [Write ''x'', Raise (UserException ''boom'')])) ''data/tmpabcdefgh'' \<noteq> None"
proof -
  let ?tmp = "''data/tmpabcdefgh''"
  let ?body = "[Write ''x'', Raise (UserException ''boom'')]"
  let ?f = "\<lparr>h_path = ?tmp, h_writable = True, h_buffer = []\<rparr>"
  let ?a1 = "put_file atomic_os ?tmp (Some [])"
  let ?l1 = "put_file locked_os ?tmp (Some [])"
  have mka: "mkstemp atomic_os (dirname ''data/out.p'') = Inr (?tmp, ?a1)"
    by (simp add: atomic_eval)
  have opa: "open_file ?a1 ?tmp ''wb'' = Inr (?f, ?a1)"
    by (simp add: atomic_eval)
  have bodya: "run_body ?a1 ?f ?body =
      (Some (UserException ''boom''), ?f\<lparr>h_buffer := ''x''\<rparr>, ?a1)"
    by (simp add: atomic_eval)
  have cla: "file_close ?a1 (?f\<lparr>h_buffer := ''x''\<rparr>) \<noteq> Inl e" for e
    by (simp add: atomic_eval)
  have fa: "fault_at atomic_os SysUnlink ?tmp = None"
    and da: "resolve atomic_os ''data/out.p'' \<noteq> resolve atomic_os ?tmp"
    and olda: "file_at atomic_os ''data/out.p'' = Some ''old''"
    by (simp_all add: atomic_eval)
  have mkl: "mkstemp locked_os (dirname ''data/out.p'') = Inr (?tmp, ?l1)"
    by (simp add: atomic_eval)
  have opl: "open_file ?l1 ?tmp ''wb'' = Inr (?f, ?l1)"
    by (simp add: atomic_eval)
  have bodyl: "run_body ?l1 ?f ?body =
      (Some (UserException ''boom''), ?f\<lparr>h_buffer := ''x''\<rparr>, ?l1)"
    by (simp add: atomic_eval)
  have fl: "fault_at locked_os SysUnlink ?tmp = Some EACCES"
    and dl: "resolve locked_os ''data/out.p'' \<noteq> resolve locked_os ?tmp"
    and oldl: "file_at locked_os ''data/out.p'' = Some ''old''"
    by (simp_all add: atomic_eval)
  from open_atomic_body_raises [OF mka opa bodya, of False] fa da olda cla
  have a: "fst (open_atomic atomic_os ''data/out.p'' ''wb'' False ?body) =
        Some (UserException ''boom'') \<and>
      file_at (snd (open_atomic atomic_os ''data/out.p'' ''wb'' False ?body)) ''data/out.p'' =
        Some ''old'' \<and>
      file_at (snd (open_atomic atomic_os ''data/out.p'' ''wb'' False ?body)) ?tmp = None"
    by (auto split: sum.splits)
  from open_atomic_body_raises [OF mkl opl bodyl, of False] fl dl oldl
  have l: "fst (open_atomic locked_os ''data/out.p'' ''wb'' False ?body) = Some (OSError 13) \<and>
      file_at (snd (open_atomic locked_os ''data/out.p'' ''wb'' False ?body)) ''data/out.p'' =
        Some ''old'' \<and>
      file_at (snd (open_atomic locked_os ''data/out.p'' ''wb'' False ?body)) ?tmp \<noteq> None"
    by auto
  from a l show ?thesis by (simp only: simp_thms)
qed

text \<open>
  Claim C1 as stated fails: when removing the temporary file fails with an error other
  than \<^verbatim>\<open>ENOENT\<close>, the \<^verbatim>\<open>finally\<close> block raises that error, which replaces the error of the
  caller's block, and the temporary file stays. The destination is as before the call.
\<close>

theorem open_atomic_cleanup_error_replaces:
  "fst (open_atomic locked_os ''data/out.p'' ''wb'' False
          [Write ''x'', Raise (UserException ''boom'')]) = Some (OSError 13) \<and>
   file_at (snd (open_atomic locked_os ''data/out.p'' ''wb'' False
          [Write ''x'', Raise (UserException ''boom'')])) ''data/tmpabcdefgh'' = Some ''x'' \<and>
   file_at (snd (open_atomic locked_os ''data/out.p'' ''wb'' False
          [Write ''x'', Raise (UserException ''boom'')])) ''data/out.p'' = Some ''old''"
  by (simp add: atomic_eval)

subsection \<open>The option \<^verbatim>\<open>fsync\<close>\<close>

lemma with_open_fsync: "fst (with_open st p mode True body) \<noteq> None"
  by (auto simp: with_open_def after_yield_def Let_def split: sum.splits prod.splits option.splits)

lemma atomic_block_fsync: "fst (atomic_block st p filepath mode True body) \<noteq> None"
proof -
  obtain pd st2 where w: "with_open st p mode True body = (pd, st2)"
    by (cases "with_open st p mode True body")
  with with_open_fsync [of st p mode body] obtain e where "pd = Some e" by auto
  with w show ?thesis by (simp add: atomic_block_def)
qed

lemma open_atomic_fsync_always_raises:
  "fst (open_atomic st filepath mode True body) \<noteq> None"
proof (cases "mkstemp st (dirname filepath)")
  case (Inl e)
  then show ?thesis by (simp add: open_atomic_def)
next
  case (Inr a)
  obtain tmp st1 where a: "a = (tmp, st1)" by (cases a)
  obtain pending st2 where w: "atomic_block st1 tmp filepath mode True body = (pending, st2)"
    by (cases "atomic_block st1 tmp filepath mode True body")
  with atomic_block_fsync [of st1 tmp filepath mode body] obtain e where "pending = Some e"
    by auto
  with Inr a w show ?thesis
    by (simp add: open_atomic_def tempfile_cleanup_pending)
qed

text \<open>
  Claim C3. With \<^verbatim>\<open>fsync=True\<close> the call never completes normally: an exception always
  reaches the caller. On a machine without faults, after a block that writes and ends
  normally, the exception is \<^verbatim>\<open>NameError\<close> (the name \<^verbatim>\<open>file\<close>), \<^verbatim>\<open>os.fsync\<close> is not called, the
  rename is skipped and the destination keeps its old content.
\<close>

theorem open_atomic_fsync_raises:
  "fst (open_atomic st filepath mode True body) \<noteq> None \<and>
   fst (open_atomic atomic_os ''data/out.p'' ''wb'' True [Write ''x'']) =
     Some (NameError ''file'') \<and>
   files (snd (open_atomic atomic_os ''data/out.p'' ''wb'' True [Write ''x'']))
     ''data/out.p'' = Some ''old''"
proof -
  have "fst (open_atomic st filepath mode True body) \<noteq> None"
    by (rule open_atomic_fsync_always_raises)
  moreover have "fst (open_atomic atomic_os ''data/out.p'' ''wb'' True [Write ''x'']) =
      Some (NameError ''file'')"
    "files (snd (open_atomic atomic_os ''data/out.p'' ''wb'' True [Write ''x'']))
      ''data/out.p'' = Some ''old''"
    by (simp_all add: atomic_eval)
  ultimately show ?thesis by simp
qed

subsection \<open>Cleanup on every exit\<close>

text \<open>
  Claim C8. The temporary file \<open>tmp\<close> has been created, and the block under \<^verbatim>\<open>_tempfile\<close>
  (the inner \<^verbatim>\<open>with\<close>, then the rename) ends in the state \<open>st3\<close> with the exception \<open>pending\<close>,
  \<open>None\<close> on normal completion. On an error exit the temporary file still exists; on a
  normal exit it has been renamed away, unless the destination is the temporary file
  itself. Whatever the exit: when the file still exists and removing it is not made to
  fail, \<open>open_atomic\<close> deletes it and leaves the outcome \<open>pending\<close> as it is; when the file is
  already gone, \<^verbatim>\<open>os.remove\<close> raises \<^verbatim>\<open>ENOENT\<close> (errno 2), which is swallowed: the outcome is
  \<open>pending\<close> and the state is unchanged; when removing the file is made to fail,
  \<^verbatim>\<open>os.remove\<close> raises an error with another number; and every error of \<^verbatim>\<open>os.remove\<close> that
  is not \<^verbatim>\<open>OSError\<close> with errno 2 is the exception that reaches the caller of \<open>open_atomic\<close>.
  So the temporary file is gone after every call in which removing it is not made to
  fail.
\<close>

theorem tempfile_cleanup_every_exit:
  assumes mk: "mkstemp st (dirname filepath) = Inr (tmp, st1)"
    and blk: "atomic_block st1 tmp filepath mode fsync body = (pending, st3)"
  shows "(pending \<noteq> None \<longrightarrow> file_at st3 tmp \<noteq> None) \<and>
         (pending = None \<and> resolve st tmp \<noteq> resolve st filepath \<longrightarrow> file_at st3 tmp = None) \<and>
         (file_at st3 tmp \<noteq> None \<and> fault_at st SysUnlink tmp = None \<longrightarrow>
            os_remove st3 tmp = Inr (put_file st3 tmp None) \<and>
            open_atomic st filepath mode fsync body = (pending, put_file st3 tmp None)) \<and>
         (file_at st3 tmp = None \<longrightarrow>
            os_remove st3 tmp = Inl (OSError 2) \<and>
            open_atomic st filepath mode fsync body = (pending, st3)) \<and>
         (\<forall>flt. file_at st3 tmp \<noteq> None \<and> fault_at st SysUnlink tmp = Some flt \<longrightarrow>
            os_remove st3 tmp = Inl (OSError (errno_of flt)) \<and> errno_of flt \<noteq> 2) \<and>
         (\<forall>e. os_remove st3 tmp = Inl e \<and> e \<noteq> OSError 2 \<longrightarrow>
            open_atomic st filepath mode fsync body = (Some e, st3)) \<and>
         (fault_at st SysUnlink tmp = None \<longrightarrow>
            file_at (snd (open_atomic st filepath mode fsync body)) tmp = None)"
proof -
  from mkstemp_result [OF mk] have nn: "\<not> has_nul tmp"
    and st1: "st1 = put_file st tmp (Some [])" by simp_all
  have e1: "file_at st1 tmp \<noteq> None" unfolding st1 by (simp add: file_at_put)
  have r1: "resolve st1 = resolve st" unfolding st1 by (rule resolve_put)
  have f1: "faults st1 = faults st" unfolding st1 by (simp add: put_file_def)
  from atomic_block_resolve [OF blk e1] r1 f1
  have flt3: "fault_at st3 SysUnlink tmp = fault_at st SysUnlink tmp"
    by (simp add: fault_at_def)
  have oa: "open_atomic st filepath mode fsync body = tempfile_cleanup st3 tmp pending"
    by (rule open_atomic_unfold [OF mk blk])
  have 1: "pending \<noteq> None \<longrightarrow> file_at st3 tmp \<noteq> None"
  proof
    assume "pending \<noteq> None"
    then obtain r where "pending = Some r" by auto
    with blk have "atomic_block st1 tmp filepath mode fsync body = (Some r, st3)" by simp
    from atomic_block_pending [OF this e1] show "file_at st3 tmp \<noteq> None"
      using e1 by (rule written_exists)
  qed
  have 2: "pending = None \<and> resolve st tmp \<noteq> resolve st filepath \<longrightarrow> file_at st3 tmp = None"
    using blk e1 r1 by (auto intro: atomic_block_renamed)
  have 3: "file_at st3 tmp \<noteq> None \<and> fault_at st SysUnlink tmp = None \<longrightarrow>
      os_remove st3 tmp = Inr (put_file st3 tmp None) \<and>
      open_atomic st filepath mode fsync body = (pending, put_file st3 tmp None)"
    using nn flt3 oa by (simp add: os_remove_ok tempfile_cleanup_ok)
  have 4: "file_at st3 tmp = None \<longrightarrow>
      os_remove st3 tmp = Inl (OSError 2) \<and>
      open_atomic st filepath mode fsync body = (pending, st3)"
    using nn oa by (simp add: os_remove_gone tempfile_cleanup_gone)
  have 5: "\<forall>flt. file_at st3 tmp \<noteq> None \<and> fault_at st SysUnlink tmp = Some flt \<longrightarrow>
      os_remove st3 tmp = Inl (OSError (errno_of flt)) \<and> errno_of flt \<noteq> 2"
    using nn flt3 by (simp add: os_remove_fault errno_of_not_ENOENT)
  have 6: "\<forall>e. os_remove st3 tmp = Inl e \<and> e \<noteq> OSError 2 \<longrightarrow>
      open_atomic st filepath mode fsync body = (Some e, st3)"
    using oa by (auto simp: tempfile_cleanup_def split: exn.splits)
  have 7: "fault_at st SysUnlink tmp = None \<longrightarrow>
      file_at (snd (open_atomic st filepath mode fsync body)) tmp = None"
  proof (cases "file_at st3 tmp")
    case None
    with 4 show ?thesis by simp
  next
    case (Some c)
    with 3 show ?thesis by (simp add: file_at_put)
  qed
  from 1 2 3 4 5 6 7 show ?thesis by (simp only: simp_thms)
qed

theorem tempfile_cleanup_every_exit_witness:
  "fst (open_atomic atomic_os ''data/out.p'' ''wb'' False
          [Write ''x'', Raise (UserException ''boom'')]) = Some (UserException ''boom'') \<and>
   file_at (snd (open_atomic atomic_os ''data/out.p'' ''wb'' False
          [Write ''x'', Raise (UserException ''boom'')])) ''data/tmpabcdefgh'' = None \<and>
   os_remove (snd (atomic_block (put_file atomic_os ''data/tmpabcdefgh'' (Some []))
          ''data/tmpabcdefgh'' ''data/new.p'' ''wb'' False [Write ''new'']))
       ''data/tmpabcdefgh'' = Inl (OSError 2) \<and>
   fst (open_atomic atomic_os ''data/new.p'' ''wb'' False [Write ''new'']) = None \<and>
   os_remove (snd (atomic_block (put_file locked_os ''data/tmpabcdefgh'' (Some []))
          ''data/tmpabcdefgh'' ''data/out.p'' ''wb'' False
          [Write ''x'', Raise (UserException ''boom'')]))
       ''data/tmpabcdefgh'' = Inl (OSError 13) \<and>
   fst (open_atomic locked_os ''data/out.p'' ''wb'' False
          [Write ''x'', Raise (UserException ''boom'')]) = Some (OSError 13) \<and>
   file_at (snd (open_atomic locked_os ''data/out.p'' ''wb'' False
          [Write ''x'', Raise (UserException ''boom'')])) ''data/tmpabcdefgh'' \<noteq> None"
proof -
  let ?tmp = "''data/tmpabcdefgh''"
  let ?raising = "[Write ''x'', Raise (UserException ''boom'')]"
  let ?a1 = "put_file atomic_os ?tmp (Some [])"
  let ?l1 = "put_file locked_os ?tmp (Some [])"
  let ?ba = "atomic_block ?a1 ?tmp ''data/out.p'' ''wb'' False ?raising"
  let ?bn = "atomic_block ?a1 ?tmp ''data/new.p'' ''wb'' False [Write ''new'']"
  let ?bl = "atomic_block ?l1 ?tmp ''data/out.p'' ''wb'' False ?raising"
  have mka: "mkstemp atomic_os (dirname ''data/out.p'') = Inr (?tmp, ?a1)"
    and mkn: "mkstemp atomic_os (dirname ''data/new.p'') = Inr (?tmp, ?a1)"
    and mkl: "mkstemp locked_os (dirname ''data/out.p'') = Inr (?tmp, ?l1)"
    by (simp_all add: atomic_eval)
  have ba: "?ba = (fst ?ba, snd ?ba)" and bn: "?bn = (fst ?bn, snd ?bn)"
    and bl: "?bl = (fst ?bl, snd ?bl)" by simp_all
  have pa: "fst ?ba = Some (UserException ''boom'')"
    and pn: "fst ?bn = None"
    and pl: "fst ?bl = Some (UserException ''boom'')"
    by (simp_all add: atomic_eval)
  have fa: "fault_at atomic_os SysUnlink ?tmp = None"
    and fl: "fault_at locked_os SysUnlink ?tmp = Some EACCES"
    and dn: "resolve atomic_os ?tmp \<noteq> resolve atomic_os ''data/new.p''"
    by (simp_all add: atomic_eval)
  from tempfile_cleanup_every_exit [OF mka ba] pa fa
  have a: "fst (open_atomic atomic_os ''data/out.p'' ''wb'' False ?raising) =
        Some (UserException ''boom'') \<and>
      file_at (snd (open_atomic atomic_os ''data/out.p'' ''wb'' False ?raising)) ?tmp = None"
    by auto
  from tempfile_cleanup_every_exit [OF mkn bn] pn dn
  have n: "os_remove (snd ?bn) ?tmp = Inl (OSError 2) \<and>
      fst (open_atomic atomic_os ''data/new.p'' ''wb'' False [Write ''new'']) = None"
    by auto
  from tempfile_cleanup_every_exit [OF mkl bl] pl fl
  have l: "os_remove (snd ?bl) ?tmp = Inl (OSError 13) \<and>
      fst (open_atomic locked_os ''data/out.p'' ''wb'' False ?raising) = Some (OSError 13) \<and>
      file_at (snd (open_atomic locked_os ''data/out.p'' ''wb'' False ?raising)) ?tmp \<noteq> None"
    by auto
  from a n l show ?thesis by (simp only: simp_thms)
qed

subsection \<open>Normal completion\<close>

lemma run_body_writes:
  assumes "h_writable f"
  shows "run_body st f (map Write chunks) = (None, f\<lparr>h_buffer := h_buffer f @ concat chunks\<rparr>, st)"
  using assms
  by (induction chunks arbitrary: f) (simp_all add: file_write_def)

lemma with_open_None:
  assumes "with_open st1 tmp mode fsync body = (None, st2)"
  shows "\<exists>f s1 f1 s2. open_file st1 tmp mode = Inr (f, s1) \<and>
           run_body s1 f body = (None, f1, s2) \<and> \<not> fsync \<and> file_close s2 f1 = Inr st2"
  using assms
  by (auto simp: with_open_def after_yield_def Let_def
      split: sum.splits prod.splits option.splits if_splits)

lemma open_atomic_None:
  assumes "open_atomic st filepath mode fsync body = (None, st')"
    and "mkstemp st (dirname filepath) = Inr (tmp, st1)"
  shows "\<exists>st2 st3. with_open st1 tmp mode fsync body = (None, st2) \<and>
           os_rename st2 tmp filepath = Inr st3 \<and>
           tempfile_cleanup st3 tmp None = (None, st')"
proof -
  obtain pending st3 where blk: "atomic_block st1 tmp filepath mode fsync body = (pending, st3)"
    by (cases "atomic_block st1 tmp filepath mode fsync body")
  from open_atomic_unfold [OF assms(2) blk] assms(1)
  have cu: "tempfile_cleanup st3 tmp pending = (None, st')" by simp
  have "pending = None"
  proof (cases pending)
    case (Some e)
    with cu tempfile_cleanup_pending [of st3 tmp e] show ?thesis by simp
  qed simp
  with blk cu atomic_block_None show ?thesis by blast
qed

lemma file_close_content:
  assumes "file_close st f = Inr st'" and "file_at st (h_path f) = Some c"
  shows "file_at st' (h_path f) = Some (c @ h_buffer f)"
  using assms
  by (auto simp: file_close_def file_flush_def file_at_put
      split: sum.splits if_splits option.splits)

lemma valid_mode_wb: "valid_mode ''wb''"
  by (simp add: valid_mode_def)

text \<open>
  Claim C2, as amended. When \<open>open_atomic\<close> with mode \<^verbatim>\<open>wb\<close> completes normally after a
  block that writes the chunks of \<open>B\<close> to the handle, and the destination path does not
  name, under any spelling, the temporary file itself, then the destination holds exactly
  \<open>B\<close>, and reading it back yields \<open>B\<close> unless opening it is made to fail; the temporary
  file was created in the directory of the destination, under one of the candidate names,
  and no longer exists under its own name.
\<close>

theorem open_atomic_completion:
  assumes run: "open_atomic st filepath ''wb'' fsync (map Write chunks) = (None, st')"
    and mk: "mkstemp st (dirname filepath) = Inr (tmp, st1)"
    and ne: "resolve st tmp \<noteq> resolve st filepath"
  shows "file_at st' filepath = Some (concat chunks) \<and> file_at st' tmp = None \<and>
         (fault_at st SysOpen filepath = None \<longrightarrow>
            os_read_file st' filepath = Inr (concat chunks)) \<and>
         (\<exists>name \<in> set (temp_names st). tmp = path_join (dirname filepath) (''tmp'' @ name))"
proof -
  from mkstemp_result [OF mk] have nn: "\<not> has_nul tmp"
    and st1: "st1 = put_file st tmp (Some [])"
    and nm: "\<exists>name \<in> set (temp_names st). tmp = path_join (dirname filepath) (''tmp'' @ name)"
    by simp_all
  have e1: "file_at st1 tmp \<noteq> None" unfolding st1 by (simp add: file_at_put)
  have r1: "resolve st1 = resolve st" unfolding st1 by (rule resolve_put)
  have fl1: "faults st1 = faults st" unfolding st1 by (simp add: put_file_def)
  from open_atomic_None [OF run mk] obtain st2 st3 where
    w: "with_open st1 tmp ''wb'' fsync (map Write chunks) = (None, st2)"
    and rn: "os_rename st2 tmp filepath = Inr st3"
    and cu: "tempfile_cleanup st3 tmp None = (None, st')" by blast
  from with_open_None [OF w] obtain f s1 f1 s2 where
    op: "open_file st1 tmp ''wb'' = Inr (f, s1)"
    and rb: "run_body s1 f (map Write chunks) = (None, f1, s2)"
    and cl: "file_close s2 f1 = Inr st2" by blast
  from op have f: "f = \<lparr>h_path = tmp, h_writable = True, h_buffer = []\<rparr>"
    and s1: "file_at s1 tmp = Some []"
    by (auto simp: open_file_def valid_mode_wb open_content_def file_at_put
        split: option.splits if_splits)
  from rb have f1: "f1 = f\<lparr>h_buffer := h_buffer f @ concat chunks\<rparr>" and s2: "s2 = s1"
    by (simp_all add: run_body_writes f)
  have "file_at st2 (h_path f1) = Some ([] @ h_buffer f1)"
    using cl s1 unfolding s2 f1 f by (intro file_close_content) simp_all
  then have c2: "file_at st2 tmp = Some (concat chunks)" by (simp add: f1 f)
  from with_open_result [OF w e1] r1 fl1 have r2: "resolve st2 = resolve st"
    and f2: "faults st2 = faults st"
    by (simp_all add: written_def same_except_def)
  from os_rename_result [OF rn] c2 ne r2
  have nd: "\<not> has_nul filepath"
    and st3: "st3 = put_file (put_file st2 filepath (Some (concat chunks))) tmp None"
    by auto
  have r3: "resolve st3 = resolve st" and f3: "faults st3 = faults st"
    unfolding st3 using r2 f2 by (simp_all add: put_file_def)
  have g3: "file_at st3 tmp = None" unfolding st3 by (simp add: file_at_put)
  have c3: "file_at st3 filepath = Some (concat chunks)"
    unfolding st3 using ne r2 by (simp add: file_at_def put_file_def)
  from cu tempfile_cleanup_gone [OF nn g3, of None] have st': "st' = st3" by simp
  have rd: "fault_at st SysOpen filepath = None \<longrightarrow>
      os_read_file st' filepath = Inr (concat chunks)"
    using nd c3 r3 f3 unfolding st' by (simp add: os_read_file_def fault_at_def)
  from c3 g3 rd nm show ?thesis unfolding st' by simp
qed

theorem open_atomic_completion_witness:
  "file_at atomic_os ''data/new.p'' = None \<and>
   fst (open_atomic atomic_os ''data/new.p'' ''wb'' False (map Write [''ne'', ''w''])) = None \<and>
   file_at (snd (open_atomic atomic_os ''data/new.p'' ''wb'' False (map Write [''ne'', ''w''])))
     ''data/new.p'' = Some ''new'' \<and>
   file_at (snd (open_atomic atomic_os ''data/new.p'' ''wb'' False (map Write [''ne'', ''w''])))
     ''data/tmpabcdefgh'' = None \<and>
   os_read_file (snd (open_atomic atomic_os ''data/new.p'' ''wb'' False
     (map Write [''ne'', ''w'']))) ''data/new.p'' = Inr ''new''"
proof -
  let ?run = "open_atomic atomic_os ''data/new.p'' ''wb'' False (map Write [''ne'', ''w''])"
  let ?tmp = "''data/tmpabcdefgh''"
  have none: "fst ?run = None" by (simp add: atomic_eval)
  then have run: "?run = (None, snd ?run)" by (simp add: prod_eq_iff)
  have mk: "mkstemp atomic_os (dirname ''data/new.p'') =
      Inr (?tmp, put_file atomic_os ?tmp (Some []))"
    by (simp add: atomic_eval)
  have ne: "resolve atomic_os ?tmp \<noteq> resolve atomic_os ''data/new.p''"
    by (simp add: atomic_eval)
  have fresh: "file_at atomic_os ''data/new.p'' = None"
    and nf: "fault_at atomic_os SysOpen ''data/new.p'' = None"
    by (simp_all add: atomic_eval)
  from open_atomic_completion [OF run mk ne] none fresh nf show ?thesis by simp
qed

text \<open>
  Claim C2 as stated fails for a fresh destination that names the very file \<^verbatim>\<open>mkstemp\<close>
  creates, written as \<^verbatim>\<open>mkstemp\<close> writes it or in another spelling (here with a doubled
  slash): the rename of the file onto itself does nothing and the cleanup removes it, so
  the call completes normally and the destination does not exist.
\<close>

theorem open_atomic_name_collision:
  "file_at atomic_os ''data/tmpabcdefgh'' = None \<and>
   fst (open_atomic atomic_os ''data/tmpabcdefgh'' ''wb'' False [Write ''B'']) = None \<and>
   file_at (snd (open_atomic atomic_os ''data/tmpabcdefgh'' ''wb'' False [Write ''B'']))
     ''data/tmpabcdefgh'' = None \<and>
   ''data//tmpabcdefgh'' \<noteq> ''data/tmpabcdefgh'' \<and>
   file_at atomic_os ''data//tmpabcdefgh'' = None \<and>
   fst (open_atomic atomic_os ''data//tmpabcdefgh'' ''wb'' False [Write ''B'']) = None \<and>
   file_at (snd (open_atomic atomic_os ''data//tmpabcdefgh'' ''wb'' False [Write ''B'']))
     ''data//tmpabcdefgh'' = None"
  by (simp add: atomic_eval)

end
